theory Spec2Isabelle
  imports Main "HOL-Library.Word"
begin

section \<open>Data model (package models)\<close>

text \<open>
  Go's \<open>int64\<close> is a 64-bit word read as two's complement: \<open>+\<close> and \<open>*\<close> wrap,
  comparisons go through \<open>sint\<close>. An instant (\<open>time.Time\<close>) is the wall-clock reading in
  nanoseconds, an unbounded integer; a \<open>time.Duration\<close> is an \<open>int64\<close> count of
  nanoseconds. A nullable \<open>*time.Time\<close> is an option. Go's \<open>uint\<close> primary keys are
  natural numbers. The bookkeeping columns \<open>created_at\<close> and \<open>updated_at\<close> are maintained
  by the store and are left out.
\<close>

type_synonym int64 = "64 word"
type_synonym instant = int
type_synonym duration = "64 word"

record ExternalService =
  ID :: nat
  Name :: string
  URL :: string
  HTTPMethod :: string
  Protocol :: string
  Interval :: int64
  TimeoutSeconds :: int64
  FailureThreshold :: int64
  Status :: string
  ConsecutiveFailures :: int64
  LastCheckedAt :: "instant option"

text \<open>
  \<open>ServiceCheckLog\<close>; its fields carry the prefix \<open>Log\<close> because \<open>ID\<close> and \<open>Status\<close> are
  already fields of \<open>ExternalService\<close>.
\<close>

record ServiceCheckLog =
  LogExternalServiceID :: nat
  LogStatus :: string
  LogStatusCode :: int
  LogResponseTimeMs :: int
  LogErrorMessage :: string
  LogCheckedAt :: instant

record StateChange =
  From :: string
  To :: string

record ServiceStateChangeEvent =
  EventType :: string
  EventServiceID :: nat
  EventName :: string
  EventFrom :: string
  EventTo :: string
  EventTimestamp :: instant

subsection \<open>The state machine\<close>

text \<open>\<open>ShouldMarkDown\<close>: \<open>s.ConsecutiveFailures >= s.FailureThreshold\<close>, a signed comparison.\<close>

definition ShouldMarkDown :: "ExternalService \<Rightarrow> bool" where
  "ShouldMarkDown s = (sint (FailureThreshold s) \<le> sint (ConsecutiveFailures s))"

text \<open>\<open>RecordSuccess\<close>; the argument \<open>now\<close> is the reading of \<open>time.Now()\<close>.\<close>

definition RecordSuccess :: "instant \<Rightarrow> ExternalService \<Rightarrow> ExternalService" where
  "RecordSuccess now s =
     s\<lparr>Status := ''UP'', ConsecutiveFailures := 0, LastCheckedAt := Some now\<rparr>"

text \<open>\<open>RecordFailure\<close>: the counter is incremented (wrapping), then compared.\<close>

definition RecordFailure :: "instant \<Rightarrow> ExternalService \<Rightarrow> ExternalService" where
  "RecordFailure now s =
     (let s1 = s\<lparr>ConsecutiveFailures := ConsecutiveFailures s + 1,
                 LastCheckedAt := Some now\<rparr>
      in if ShouldMarkDown s1 then s1\<lparr>Status := ''DOWN''\<rparr> else s1)"

text \<open>
  One application of the state machine to a probe outcome, as \<open>UpdateServiceState\<close>
  chooses between the two methods, and its iteration over a list of outcomes, each with
  the clock reading of its call.
\<close>

definition advance :: "ExternalService \<Rightarrow> bool \<times> instant \<Rightarrow> ExternalService" where
  "advance s oc = (if fst oc then RecordSuccess (snd oc) s else RecordFailure (snd oc) s)"

fun advance_all :: "ExternalService \<Rightarrow> (bool \<times> instant) list \<Rightarrow> ExternalService" where
  "advance_all s [] = s"
| "advance_all s (x # xs) = advance_all (advance s x) xs"

section \<open>The repository (package Repository)\<close>

text \<open>
  The store behind \<open>gorm.DB\<close> is an external collaborator. Its state is the two tables
  and the key sequence of the services table; whether a statement succeeds is a
  parameter of every operation that issues one (\<open>db_reply\<close>). \<open>Save\<close> writes all fields
  under the primary key: a record whose key is zero is inserted under the next key of the
  sequence; a record whose key has a row replaces that row; a record whose key has no
  row is inserted under its key. An insert fills every field that is zero and has a
  \<open>default\<close> tag in \<open>ExternalService\<close> with that default (\<open>GET\<close>, \<open>HTTP\<close>, 60, 10, 3 and
  \<open>up\<close>; the default of \<open>consecutive_failures\<close> is the zero it replaces), and the key and
  the defaults are written back into the record. A failed statement changes nothing.
\<close>

datatype db_reply = DbOk | DbError string

record db =
  services :: "ExternalService list"
  logs :: "ServiceCheckLog list"
  next_id :: nat

fun upsert :: "ExternalService \<Rightarrow> ExternalService list \<Rightarrow> ExternalService list" where
  "upsert s [] = [s]"
| "upsert s (r # rs) = (if ID r = ID s then s # rs else r # upsert s rs)"

definition row_of :: "db \<Rightarrow> nat \<Rightarrow> ExternalService option" where
  "row_of d i = find (\<lambda>r. ID r = i) (services d)"

definition with_defaults :: "ExternalService \<Rightarrow> ExternalService" where
  "with_defaults s =
     s\<lparr>HTTPMethod := (if HTTPMethod s = [] then ''GET'' else HTTPMethod s),
       Protocol := (if Protocol s = [] then ''HTTP'' else Protocol s),
       Interval := (if Interval s = 0 then 60 else Interval s),
       TimeoutSeconds := (if TimeoutSeconds s = 0 then 10 else TimeoutSeconds s),
       FailureThreshold := (if FailureThreshold s = 0 then 3 else FailureThreshold s),
       Status := (if Status s = [] then ''up'' else Status s)\<rparr>"

text \<open>The record as a successful \<open>Save\<close> stores it and writes it back.\<close>

definition saved :: "db \<Rightarrow> ExternalService \<Rightarrow> ExternalService" where
  "saved d s =
     (if ID s = 0 then with_defaults (s\<lparr>ID := next_id d\<rparr>)
      else if row_of d (ID s) = None then with_defaults s
      else s)"

definition Save :: "db \<Rightarrow> ExternalService \<Rightarrow> db_reply \<Rightarrow> string option \<times> ExternalService \<times> db" where
  "Save d s reply =
     (case reply of
        DbError e \<Rightarrow> (Some e, s, d)
      | DbOk \<Rightarrow>
          (None, saved d s,
           d\<lparr>services := upsert (saved d s) (services d),
             next_id := (if ID s = 0 then Suc (next_id d) else next_id d)\<rparr>))"

text \<open>
  The primary key of the services table: no two rows share a key, and no row has the
  key zero.
\<close>

definition primary_key :: "db \<Rightarrow> bool" where
  "primary_key d = (distinct (map ID (services d)) \<and> 0 \<notin> set (map ID (services d)))"

text \<open>
  \<open>UpdateServiceState\<close> returns the pair \<open>(*StateChange, error)\<close>; the record behind the
  pointer \<open>service\<close> is mutated before the save and stays mutated when the save fails, so
  the model returns it as well, together with the store.
\<close>

definition UpdateServiceState ::
  "db \<Rightarrow> ExternalService \<Rightarrow> bool \<Rightarrow> instant \<Rightarrow> db_reply
     \<Rightarrow> (StateChange option \<times> string option) \<times> ExternalService \<times> db" where
  "UpdateServiceState d service success now reply =
     (let previousStatus = Status service;
          s1 = (if success then RecordSuccess now service else RecordFailure now service)
      in case Save d s1 reply of
           (Some e, s2, d') \<Rightarrow> ((None, Some e), s2, d')
         | (None, s2, d') \<Rightarrow>
             if previousStatus \<noteq> Status s2
             then ((Some \<lparr>From = previousStatus, To = Status s2\<rparr>, None), s2, d')
             else ((None, None), s2, d'))"

text \<open>\<open>RegisterService\<close>: the validations in the order of the source, then the save.\<close>

definition RegisterService ::
  "db \<Rightarrow> ExternalService option \<Rightarrow> db_reply \<Rightarrow> string option \<times> ExternalService option \<times> db" where
  "RegisterService d service reply =
     (case service of
        None \<Rightarrow> (Some ''service is nil'', None, d)
      | Some s \<Rightarrow>
          if Name s = [] then (Some ''service name is empty'', Some s, d)
          else if URL s = [] then (Some ''service url is empty'', Some s, d)
          else if HTTPMethod s = [] then (Some ''service http method is empty'', Some s, d)
          else if TimeoutSeconds s = 0 \<or> sint (TimeoutSeconds s) < 0
            then (Some ''service timeout is invalid'', Some s, d)
          else if HTTPMethod s \<noteq> ''GET'' \<and> HTTPMethod s \<noteq> ''POST'' \<and> HTTPMethod s \<noteq> ''PUT''
                  \<and> HTTPMethod s \<noteq> ''DELETE'' \<and> HTTPMethod s \<noteq> ''PATCH''
            then (Some ''service http method is invalid'', Some s, d)
          else if FailureThreshold s = 0 \<or> sint (FailureThreshold s) < 0
            then (Some ''service failure threshold is invalid'', Some s, d)
          else if Interval s = 0 \<or> sint (Interval s) < 0
            then (Some ''service interval is invalid'', Some s, d)
          else (case Save d s reply of (err, s', d') \<Rightarrow> (err, Some s', d')))"

text \<open>
  The package \<open>cache\<close> holds one process-wide \<open>map[uint]*ExternalService\<close>. It is kept as an
  association list, whose order stands for the order in which \<open>range\<close> visits the map;
  \<open>cache_put\<close> is the assignment \<open>m[k] = v\<close>.
\<close>

type_synonym cache = "(nat \<times> ExternalService) list"

fun cache_put :: "nat \<Rightarrow> ExternalService \<Rightarrow> cache \<Rightarrow> cache" where
  "cache_put k v [] = [(k, v)]"
| "cache_put k v (p # ps) = (if fst p = k then (k, v) # ps else p # cache_put k v ps)"

fun cache_fill :: "ExternalService list \<Rightarrow> cache \<Rightarrow> cache" where
  "cache_fill [] c = c"
| "cache_fill (service # rest) c = cache_fill rest (cache_put (ID service) service c)"

text \<open>
  \<open>GetAllServices\<close> returns \<open>(map, error)\<close>, a nil map being \<open>None\<close>, and the cache as it
  leaves it.
\<close>

definition GetAllServices ::
  "db \<Rightarrow> cache \<Rightarrow> db_reply \<Rightarrow> (cache option \<times> string option) \<times> cache" where
  "GetAllServices d c reply =
     (case reply of
        DbError e \<Rightarrow> ((None, Some e), c)
      | DbOk \<Rightarrow>
          if length (services d) = 0 then ((None, Some ''no services found''), c)
          else ((Some (cache_fill (services d) c), None), cache_fill (services d) c))"

text \<open>
  \<open>GetServiceByName\<close>: \<open>Where(&ExternalService{Name: name}).First(&service)\<close>. A struct
  condition only counts its non-zero fields, so an empty name puts no condition on the
  query; \<open>First\<close> returns the row with the least primary key among those that qualify.
\<close>

fun first_row :: "ExternalService list \<Rightarrow> ExternalService option" where
  "first_row [] = None"
| "first_row (r # rs) =
     (case first_row rs of
        None \<Rightarrow> Some r
      | Some m \<Rightarrow> if ID r \<le> ID m then Some r else Some m)"

definition GetServiceByName :: "db \<Rightarrow> string \<Rightarrow> db_reply \<Rightarrow> ExternalService option \<times> string option" where
  "GetServiceByName d name reply =
     (case reply of
        DbError e \<Rightarrow> (None, Some e)
      | DbOk \<Rightarrow>
          (case first_row (if name = [] then services d
                           else filter (\<lambda>r. Name r = name) (services d)) of
             None \<Rightarrow> (None, Some ''record not found'')
           | Some service \<Rightarrow> (Some service, None)))"

definition SaveServiceCheckLog ::
  "db \<Rightarrow> ExternalService \<Rightarrow> string \<Rightarrow> int \<Rightarrow> int \<Rightarrow> string \<Rightarrow> instant \<Rightarrow> db_reply
     \<Rightarrow> string option \<times> ServiceCheckLog \<times> db" where
  "SaveServiceCheckLog d service status statusCode responseTimeMs errMsg now reply =
     (let logEntry = \<lparr>LogExternalServiceID = ID service, LogStatus = status,
                       LogStatusCode = statusCode, LogResponseTimeMs = responseTimeMs,
                       LogErrorMessage = errMsg, LogCheckedAt = now\<rparr>
      in case reply of
           DbError e \<Rightarrow> (Some e, logEntry, d)
         | DbOk \<Rightarrow> (None, logEntry, d\<lparr>logs := logs d @ [logEntry]\<rparr>))"

section \<open>The registration handler (package service)\<close>

text \<open>
  \<open>Engine.RegisterService\<close> answers with a status code and a JSON body. The result of
  \<open>ShouldBindJSON\<close> is a parameter: a bind error, a nil pointer (the body \<open>null\<close>) or a
  service. The branch for a nil service after a successful registration is the deferred
  \<open>recover\<close>, which answers 500 when \<open>service.ID\<close> panics; the repository never returns
  that combination.
\<close>

datatype body = ErrorBody string | RegisteredBody string ExternalService

definition Engine_RegisterService ::
  "db \<Rightarrow> cache \<Rightarrow> string + ExternalService option \<Rightarrow> db_reply \<Rightarrow> (nat \<times> body) \<times> db \<times> cache" where
  "Engine_RegisterService d c bound reply =
     (case bound of
        Inl e \<Rightarrow> ((400, ErrorBody e), d, c)
      | Inr None \<Rightarrow> ((400, ErrorBody ''service is nil''), d, c)
      | Inr (Some s) \<Rightarrow>
          (case RegisterService d (Some s) reply of
             (Some e, _, d') \<Rightarrow> ((500, ErrorBody e), d', c)
           | (None, None, d') \<Rightarrow> ((500, ErrorBody ''nil pointer dereference''), d', c)
           | (None, Some service, d') \<Rightarrow>
               ((201, RegisteredBody ''service registered successfully'' service), d',
                cache_put (ID service) service c)))"

section \<open>The scheduler (package service)\<close>

record HealthCheckJob =
  ServiceName :: string
  JobURL :: string
  Timeout :: duration
  Method :: string

text \<open>
  \<open>shouldRun\<close>: \<open>time.Duration(s.Interval) * time.Second\<close> is a product of two \<open>int64\<close> and
  wraps; \<open>Add\<close> moves the instant by the signed duration and \<open>After\<close> is strict.
\<close>

definition Second :: duration where
  "Second = 1000000000"

definition shouldRun :: "ExternalService \<Rightarrow> instant \<Rightarrow> bool" where
  "shouldRun s now =
     (case LastCheckedAt s of
        None \<Rightarrow> True
      | Some t \<Rightarrow> (let next = t + sint (Interval s * Second) in now > next))"

text \<open>
  What one tick leaves behind: log lines and calls of \<open>sched.Schedule\<close>, each with the
  job and the broker's answer to the publish (\<open>None\<close> when it was accepted). The broker
  is a parameter.
\<close>

datatype sched_event =
    FetchFailed string
  | Schedule HealthCheckJob "string option"
  | ScheduleFailedLog string string

definition job_of :: "ExternalService \<Rightarrow> HealthCheckJob" where
  "job_of s = \<lparr>ServiceName = Name s, JobURL = URL s,
               Timeout = TimeoutSeconds s * Second, Method = HTTPMethod s\<rparr>"

fun schedule_round ::
  "(nat \<times> ExternalService) list \<Rightarrow> instant \<Rightarrow> (HealthCheckJob \<Rightarrow> string option) \<Rightarrow> sched_event list" where
  "schedule_round [] now publish = []"
| "schedule_round ((k, s) # rest) now publish =
     (if \<not> shouldRun s now then schedule_round rest now publish
      else (case publish (job_of s) of
              Some err \<Rightarrow> Schedule (job_of s) (Some err) # ScheduleFailedLog (Name s) err
                            # schedule_round rest now publish
            | None \<Rightarrow> Schedule (job_of s) None # schedule_round rest now publish))"

text \<open>The body of the \<open>ticker.C\<close> case of \<open>Engine.Scheduler\<close>.\<close>

definition Scheduler_tick ::
  "db \<Rightarrow> cache \<Rightarrow> db_reply \<Rightarrow> instant \<Rightarrow> (HealthCheckJob \<Rightarrow> string option)
     \<Rightarrow> sched_event list \<times> cache" where
  "Scheduler_tick d c reply now publish =
     (case GetAllServices d c reply of
        ((_, Some err), c') \<Rightarrow> ([FetchFailed err], c')
      | ((None, None), c') \<Rightarrow> ([], c')
      | ((Some svcs, None), c') \<Rightarrow> (schedule_round svcs now publish, c'))"

text \<open>The jobs handed to \<open>sched.Schedule\<close> in a round, in order.\<close>

definition scheduled_jobs :: "sched_event list \<Rightarrow> HealthCheckJob list" where
  "scheduled_jobs evs = concat (map (\<lambda>e. case e of Schedule j r \<Rightarrow> [j] | _ \<Rightarrow> []) evs)"

section \<open>The worker (package service)\<close>

text \<open>
  The outcome of \<open>client.Do\<close>: a transport error with its text, or a response with its
  status code. \<open>classify\<close> is the block of \<open>StartWorker\<close> that derives \<open>status\<close>,
  \<open>statusCode\<close>, \<open>errorMsg\<close> and \<open>success\<close> from it.
\<close>

datatype http_result = TransportError string | Response int

record outcome =
  status :: string
  statusCode :: int
  errorMsg :: string
  success :: bool

definition classify :: "http_result \<Rightarrow> outcome" where
  "classify r =
     (case r of
        TransportError err \<Rightarrow>
          \<lparr>status = ''DOWN'', statusCode = 0, errorMsg = err, success = False\<rparr>
      | Response code \<Rightarrow>
          if code < 400
          then \<lparr>status = ''UP'', statusCode = code, errorMsg = [], success = True\<rparr>
          else \<lparr>status = ''DOWN'', statusCode = code, errorMsg = [], success = False\<rparr>)"

text \<open>
  Everything the outside world answers while one message is processed: the decoding of
  the body, the store's replies, the construction of the request, the probe and its
  latency, the clock readings, and the result of \<open>json.Marshal\<close> on the event.
\<close>

record job_env =
  decoded :: "HealthCheckJob option"
  lookup_reply :: db_reply
  request_error :: "string option"
  probe :: http_result
  latencyMs :: int
  log_reply :: db_reply
  log_now :: instant
  save_reply :: db_reply
  save_now :: instant
  marshal_error :: "string option"
  event_now :: instant

text \<open>
  What the worker does to the outside world for one message, in program order: the
  acknowledgements, the request, the calls into the repository, the send on the hub's
  channel, and its log lines (by their tag). \<open>Panic\<close> stands for the dereference of a nil
  service, which \<open>GetServiceByName\<close> never returns without an error.
\<close>

datatype worker_event =
    Nack
  | Ack
  | HttpDo string string duration
  | AppendLog ServiceCheckLog
  | UpdateState nat bool
  | HubBroadcast ServiceStateChangeEvent
  | LogLine string
  | Panic string

text \<open>\<open>BroadcastStateChange\<close>: the event is built, marshalled and sent to the hub.\<close>

definition BroadcastStateChange ::
  "ExternalService \<Rightarrow> StateChange \<Rightarrow> instant \<Rightarrow> string option \<Rightarrow> worker_event list" where
  "BroadcastStateChange service change now merr =
     (let event = \<lparr>EventType = ''service_state_change'', EventServiceID = ID service,
                    EventName = Name service, EventFrom = From change, EventTo = To change,
                    EventTimestamp = now\<rparr>
      in case merr of
           Some err \<Rightarrow> [LogLine ''[WS] marshal_failed'']
         | None \<Rightarrow> [HubBroadcast event])"

text \<open>The body of the loop over \<open>msgs\<close> in \<open>StartWorker\<close>.\<close>

definition process_message :: "db \<Rightarrow> job_env \<Rightarrow> worker_event list \<times> db" where
  "process_message d env =
     (case decoded env of
        None \<Rightarrow> ([LogLine ''[WORKER] invalid_job'', Nack], d)
      | Some job \<Rightarrow>
     (case GetServiceByName d (ServiceName job) (lookup_reply env) of
        (_, Some err) \<Rightarrow> ([LogLine ''[WORKER] service_not_found'', Nack], d)
      | (None, None) \<Rightarrow> ([Panic ''nil pointer dereference''], d)
      | (Some service, None) \<Rightarrow>
     (case request_error env of
        Some err \<Rightarrow> ([LogLine ''[WORKER] invalid_request'', Nack], d)
      | None \<Rightarrow>
     (let oc = classify (probe env) in
      case SaveServiceCheckLog d service (status oc) (statusCode oc) (latencyMs env)
             (errorMsg oc) (log_now env) (log_reply env) of
        (lerr, logEntry, d1) \<Rightarrow>
     (case UpdateServiceState d1 service (success oc) (save_now env) (save_reply env) of
        ((stateChange, uerr), service', d2) \<Rightarrow>
          ([HttpDo (Method job) (JobURL job) (Timeout job), AppendLog logEntry]
           @ (case lerr of Some e \<Rightarrow> [LogLine ''[WORKER] log_save_failed''] | None \<Rightarrow> [])
           @ [UpdateState (ID service) (success oc)]
           @ (case uerr of Some e \<Rightarrow> [LogLine ''[WORKER] state_update_failed''] | None \<Rightarrow> [])
           @ (case stateChange of
                Some change \<Rightarrow>
                  LogLine ''[STATE_TRANSITION]''
                    # BroadcastStateChange service' change (event_now env) (marshal_error env)
              | None \<Rightarrow> [])
           @ [LogLine ''[WORKER] check_completed'', Ack], d2))))))"

fun StartWorker_loop :: "db \<Rightarrow> job_env list \<Rightarrow> worker_event list \<times> db" where
  "StartWorker_loop d [] = ([], d)"
| "StartWorker_loop d (env # rest) =
     (case process_message d env of
        (evs, d') \<Rightarrow> (case StartWorker_loop d' rest of (evs', d'') \<Rightarrow> (evs @ evs', d'')))"

text \<open>The worker's trace without its log lines.\<close>

fun is_LogLine :: "worker_event \<Rightarrow> bool" where
  "is_LogLine (LogLine l) = True"
| "is_LogLine e = False"

definition effects :: "worker_event list \<Rightarrow> worker_event list" where
  "effects evs = filter (\<lambda>e. \<not> is_LogLine e) evs"

fun is_AppendLog :: "worker_event \<Rightarrow> bool" where
  "is_AppendLog (AppendLog l) = True"
| "is_AppendLog e = False"

section \<open>The broadcast hub (package service)\<close>

text \<open>
  A buffered channel of byte strings: the pending messages, oldest first, the capacity
  given to \<open>make\<close>, and whether it has been closed. A client is the address of its
  \<open>Client\<close> struct; the store maps each address to the client's \<open>Send\<close> channel. The hub
  itself is its key set \<open>clients\<close>, a list without order of its own, read in the order
  in which \<open>range\<close> visits it. Both copies of \<open>Hub.Run\<close> in the repository are the same
  code.
\<close>

record chan =
  buf :: "string list"
  cap :: nat
  closed :: bool

type_synonym client = nat
type_synonym store = "client \<Rightarrow> chan"

record Hub =
  clients :: "client list"

text \<open>\<open>make(chan []byte, 256)\<close>, the channel \<open>HandleWebSocket\<close> gives every client.\<close>

definition new_Send :: chan where
  "new_Send = \<lparr>buf = [], cap = 256, closed = False\<rparr>"

text \<open>
  The \<open>broadcast\<close> case of \<open>Hub.Run\<close>: for every client a \<open>select\<close> with a send and a
  \<open>default\<close>. The send is taken when the buffer has room, the \<open>default\<close> when it is full;
  a send on a closed channel panics (\<open>Inl\<close>). In the \<open>default\<close> branch the client is
  deleted from the map and its channel closed.
\<close>

fun broadcast_loop :: "client list \<Rightarrow> string \<Rightarrow> Hub \<Rightarrow> store \<Rightarrow> string + (Hub \<times> store)" where
  "broadcast_loop [] msg h st = Inr (h, st)"
| "broadcast_loop (c # cs) msg h st =
     (if closed (st c) then Inl ''send on closed channel''
      else if length (buf (st c)) < cap (st c)
      then broadcast_loop cs msg h (st(c := (st c)\<lparr>buf := buf (st c) @ [msg]\<rparr>))
      else broadcast_loop cs msg (h\<lparr>clients := removeAll c (clients h)\<rparr>)
             (st(c := (st c)\<lparr>closed := True\<rparr>)))"

datatype hub_input = Register client | Unregister client | Broadcast string

text \<open>One iteration of the \<open>for\<close>/\<open>select\<close> loop of \<open>Hub.Run\<close>, by the channel that fired.\<close>

definition Run_step :: "hub_input \<Rightarrow> Hub \<Rightarrow> store \<Rightarrow> string + (Hub \<times> store)" where
  "Run_step i h st =
     (case i of
        Register c \<Rightarrow>
          Inr (if c \<in> set (clients h) then h else h\<lparr>clients := clients h @ [c]\<rparr>, st)
      | Unregister c \<Rightarrow>
          if c \<in> set (clients h)
          then (if closed (st c) then Inl ''close of closed channel''
                else Inr (h\<lparr>clients := removeAll c (clients h)\<rparr>,
                          st(c := (st c)\<lparr>closed := True\<rparr>)))
          else Inr (h, st)
      | Broadcast msg \<Rightarrow> broadcast_loop (clients h) msg h st)"

text \<open>\<open>Hub.Run\<close> over the inputs it has received so far.\<close>

fun Run :: "hub_input list \<Rightarrow> Hub \<Rightarrow> store \<Rightarrow> string + (Hub \<times> store)" where
  "Run [] h st = Inr (h, st)"
| "Run (i # is) h st =
     (case Run_step i h st of
        Inl p \<Rightarrow> Inl p
      | Inr (h', st') \<Rightarrow> Run is h' st')"

section \<open>The specification's predicates\<close>

text \<open>
  Two predicates written from the words of the specification, to be compared with what
  the source computes. \<open>fails_validation\<close> is its list of validation failures: an empty
  name, an empty url, an empty or unknown HTTP method, a non-positive timeout, interval
  or failure threshold. \<open>due\<close> is its due-time rule: never checked, or the current time
  after the last check plus the interval in seconds, the interval being a number that
  does not wrap.
\<close>

definition fails_validation :: "ExternalService \<Rightarrow> bool" where
  "fails_validation s =
     (Name s = [] \<or> URL s = [] \<or> HTTPMethod s = []
      \<or> HTTPMethod s \<notin> set [''GET'', ''POST'', ''PUT'', ''DELETE'', ''PATCH'']
      \<or> sint (TimeoutSeconds s) \<le> 0 \<or> sint (Interval s) \<le> 0
      \<or> sint (FailureThreshold s) \<le> 0)"

definition due :: "ExternalService \<Rightarrow> instant \<Rightarrow> bool" where
  "due s now =
     (case LastCheckedAt s of
        None \<Rightarrow> True
      | Some t \<Rightarrow> now > t + sint (Interval s) * 1000000000)"

section \<open>Example inputs\<close>

text \<open>
  The service of the specification's first scenario, stored with status \<open>UP\<close>, and a
  store that holds nothing else.
\<close>

definition seed :: ExternalService where
  "seed = \<lparr>ID = 1, Name = ''A'', URL = ''http://x/health'', HTTPMethod = ''GET'',
            Protocol = ''HTTP'', Interval = 30, TimeoutSeconds = 5, FailureThreshold = 3,
            Status = ''UP'', ConsecutiveFailures = 0, LastCheckedAt = None\<rparr>"

definition seed_db :: db where
  "seed_db = \<lparr>services = [seed], logs = [], next_id = 2\<rparr>"

text \<open>
  The same service with a threshold of one, and a message for it whose probe is refused
  by the target while the store and the marshaller work.
\<close>

definition fragile :: ExternalService where
  "fragile = seed\<lparr>FailureThreshold := 1\<rparr>"

definition fragile_db :: db where
  "fragile_db = \<lparr>services = [fragile], logs = [], next_id = 2\<rparr>"

definition env_refused :: job_env where
  "env_refused = \<lparr>decoded = Some (job_of seed), lookup_reply = DbOk, request_error = None,
                   probe = TransportError ''connection refused'', latencyMs = 45,
                   log_reply = DbOk, log_now = 100, save_reply = DbOk, save_now = 101,
                   marshal_error = None, event_now = 102\<rparr>"

text \<open>
  A store whose row for the seed service has gone \<open>DOWN\<close> after three failures, beside
  which \<open>seed\<close> is a copy read before they were recorded.
\<close>

definition stale_db :: db where
  "stale_db = \<lparr>services = [seed\<lparr>Status := ''DOWN'', ConsecutiveFailures := 3\<rparr>],
                logs = [], next_id = 2\<rparr>"

text \<open>
  A registration with the unknown method \<open>FOO\<close> and a valid one that, like the request
  in the repository's documentation, names neither a status nor a key; a store without
  services; a service whose interval is 9223372037 seconds, last checked at instant 0;
  and two services with intervals of 10 and 60 seconds, both last checked at second 100.
\<close>

definition foo :: ExternalService where
  "foo = seed\<lparr>ID := 0, Name := ''B'', HTTPMethod := ''FOO''\<rparr>"

definition newcomer :: ExternalService where
  "newcomer = \<lparr>ID = 0, Name = ''B'', URL = ''http://y/health'', HTTPMethod = ''GET'',
                Protocol = [], Interval = 60, TimeoutSeconds = 10, FailureThreshold = 3,
                Status = [], ConsecutiveFailures = 0, LastCheckedAt = None\<rparr>"

definition empty_db :: db where
  "empty_db = \<lparr>services = [], logs = [], next_id = 1\<rparr>"

definition far :: ExternalService where
  "far = seed\<lparr>Interval := 9223372037, LastCheckedAt := Some 0\<rparr>"

definition far_db :: db where
  "far_db = \<lparr>services = [far], logs = [], next_id = 2\<rparr>"

definition svcA :: ExternalService where
  "svcA = seed\<lparr>Interval := 10, LastCheckedAt := Some 100000000000\<rparr>"

definition svcB :: ExternalService where
  "svcB = seed\<lparr>ID := 2, Name := ''B'', Interval := 60, LastCheckedAt := Some 100000000000\<rparr>"

definition two_db :: db where
  "two_db = \<lparr>services = [svcA, svcB], logs = [], next_id = 3\<rparr>"

text \<open>
  A hub with two clients, the first with an empty buffer and the second with 256 pending
  messages; and a hub with one client whose channel is fresh.
\<close>

definition two_clients :: Hub where
  "two_clients = \<lparr>clients = [1, 2]\<rparr>"

definition two_chans :: store where
  "two_chans = (\<lambda>c. if c = 2 then new_Send\<lparr>buf := replicate 256 ''old''\<rparr> else new_Send)"

definition lone_client :: Hub where
  "lone_client = \<lparr>clients = [1]\<rparr>"

definition fresh_chans :: store where
  "fresh_chans = (\<lambda>c. new_Send)"

section \<open>Arithmetic of \<open>int64\<close>\<close>

lemma sint_succ_int64:
  fixes x :: int64
  assumes "sint x < 9223372036854775807"
  shows "sint (x + 1) = sint x + 1"
proof -
  have lo: "- (2 ^ 63) \<le> sint x"
    using sint_ge [of x] by simp
  have "signed_take_bit 63 (sint x + 1) = sint x + 1"
    using lo assms by (intro signed_take_bit_int_eq_self) simp_all
  then show ?thesis
    by (simp add: sint_word_add)
qed

lemma sint_succ_below:
  fixes x t :: int64
  assumes "sint x < sint t"
  shows "sint (x + 1) = sint x + 1"
proof -
  have "sint t \<le> 9223372036854775807"
    using sint_lt [of t] by simp
  with assms show ?thesis
    by (intro sint_succ_int64) simp
qed

lemma sint_nonpos_iff:
  fixes x :: int64
  shows "(x = 0 \<or> sint x < 0) \<longleftrightarrow> sint x \<le> 0"
  by (auto simp add: order_le_less signed_eq_0_iff)

lemma sint_Second: "sint Second = 1000000000"
  by (simp add: Second_def)

lemma sint_seconds:
  fixes x :: int64
  assumes "0 \<le> sint x" and "sint x \<le> 9223372036"
  shows "sint (x * Second) = sint x * 1000000000"
proof -
  have "signed_take_bit 63 (sint x * 1000000000) = sint x * 1000000000"
    using assms by (intro signed_take_bit_int_eq_self) simp_all
  then show ?thesis
    by (simp add: sint_word_mult sint_Second)
qed

section \<open>The state machine\<close>

lemma RecordSuccess_simps:
  "Status (RecordSuccess now s) = ''UP''"
  "ConsecutiveFailures (RecordSuccess now s) = 0"
  "FailureThreshold (RecordSuccess now s) = FailureThreshold s"
  by (simp_all add: RecordSuccess_def)

lemma RecordFailure_simps:
  "ConsecutiveFailures (RecordFailure now s) = ConsecutiveFailures s + 1"
  "FailureThreshold (RecordFailure now s) = FailureThreshold s"
  "Status (RecordFailure now s) =
     (if sint (FailureThreshold s) \<le> sint (ConsecutiveFailures s + 1) then ''DOWN'' else Status s)"
  by (simp_all add: RecordFailure_def ShouldMarkDown_def Let_def)

lemma advance_all_append:
  "advance_all s (xs @ ys) = advance_all (advance_all s xs) ys"
  by (induction xs arbitrary: s) simp_all

text \<open>
  Claim C9. From any service record whatever, any number of failed outcomes followed by
  one successful outcome leaves the status \<open>UP\<close> and the counter at 0. The list \<open>ts\<close>
  holds the clock readings of the failed probes, so its length is the number N of
  failures; no invariant of the initial record is needed.
\<close>

theorem failures_then_success:
  "Status (advance_all s (map (Pair False) ts @ [(True, t)])) = ''UP'' \<and>
   ConsecutiveFailures (advance_all s (map (Pair False) ts @ [(True, t)])) = 0"
  by (simp add: advance_all_append advance_def RecordSuccess_simps)

theorem failures_then_success_witness:
  "Status (advance_all seed [(False, 1), (False, 2), (False, 3), (True, 4)]) = ''UP'' \<and>
   ConsecutiveFailures (advance_all seed [(False, 1), (False, 2), (False, 3), (True, 4)]) = 0"
  using failures_then_success [of seed "[1, 2, 3]" 4]
  by simp

text \<open>
  Claim C4, amended. For a service with status \<open>UP\<close> whose counter n satisfies
  \<open>0 \<le> n < T\<close>, a failed outcome yields the counter \<open>n + 1\<close> if \<open>n + 1 < T\<close> and \<open>T\<close>
  otherwise, and the status \<open>UP\<close> if \<open>n + 1 < T\<close> and \<open>DOWN\<close> otherwise; with \<open>T = 1\<close> the
  single failure gives \<open>DOWN\<close>. The counter is never clamped: the bound \<open>n < T\<close> is what
  makes \<open>n + 1\<close> and \<open>T\<close> coincide when the threshold is reached.
\<close>

theorem RecordFailure_from_UP:
  assumes "Status s = ''UP''"
      and "0 \<le> sint (ConsecutiveFailures s)"
      and "sint (ConsecutiveFailures s) < sint (FailureThreshold s)"
  shows "sint (ConsecutiveFailures (RecordFailure now s)) =
           (if sint (ConsecutiveFailures s) + 1 < sint (FailureThreshold s)
            then sint (ConsecutiveFailures s) + 1 else sint (FailureThreshold s))
       \<and> Status (RecordFailure now s) =
           (if sint (ConsecutiveFailures s) + 1 < sint (FailureThreshold s)
            then ''UP'' else ''DOWN'')
       \<and> (FailureThreshold s = 1 \<longrightarrow> Status (RecordFailure now s) = ''DOWN'')"
  using assms sint_succ_below [OF assms(3)]
  by (auto simp add: RecordFailure_simps)

theorem RecordFailure_from_UP_witness:
  "sint (ConsecutiveFailures (RecordFailure 7 seed)) = 1
   \<and> Status (RecordFailure 7 seed) = ''UP''
   \<and> Status (RecordFailure 7 (seed\<lparr>FailureThreshold := 1\<rparr>)) = ''DOWN''
   \<and> sint (ConsecutiveFailures (RecordFailure 7 (seed\<lparr>FailureThreshold := 1\<rparr>))) = 1"
  using RecordFailure_from_UP [of seed 7]
    RecordFailure_from_UP [of "seed\<lparr>FailureThreshold := 1\<rparr>" 7]
  by (simp add: seed_def)

text \<open>
  The claim as stated fails on a record with status \<open>UP\<close>, five failures and threshold
  three (registration accepts such a record, and so does lowering the threshold of a
  service that has failed before): the failure yields the counter 6, not the
  threshold 3.
\<close>

theorem RecordFailure_no_saturation:
  "Status (seed\<lparr>ConsecutiveFailures := 5\<rparr>) = ''UP''
   \<and> sint (ConsecutiveFailures (seed\<lparr>ConsecutiveFailures := 5\<rparr>)) = 5
   \<and> sint (FailureThreshold (seed\<lparr>ConsecutiveFailures := 5\<rparr>)) = 3
   \<and> sint (ConsecutiveFailures (RecordFailure 7 (seed\<lparr>ConsecutiveFailures := 5\<rparr>))) = 6
   \<and> sint (ConsecutiveFailures (RecordFailure 7 (seed\<lparr>ConsecutiveFailures := 5\<rparr>))) \<noteq>
       (if sint (ConsecutiveFailures (seed\<lparr>ConsecutiveFailures := 5\<rparr>)) + 1
             < sint (FailureThreshold (seed\<lparr>ConsecutiveFailures := 5\<rparr>))
        then sint (ConsecutiveFailures (seed\<lparr>ConsecutiveFailures := 5\<rparr>)) + 1
        else sint (FailureThreshold (seed\<lparr>ConsecutiveFailures := 5\<rparr>)))"
  by (simp add: seed_def RecordFailure_simps)

section \<open>The repository\<close>

lemma find_upsert: "find (\<lambda>r. ID r = ID s) (upsert s rows) = Some s"
  by (induction rows) simp_all

lemma with_defaults_simps:
  "ID (with_defaults s) = ID s"
  "Name (with_defaults s) = Name s"
  "ConsecutiveFailures (with_defaults s) = ConsecutiveFailures s"
  "Status (with_defaults s) = (if Status s = [] then ''up'' else Status s)"
  "FailureThreshold (with_defaults s) = (if FailureThreshold s = 0 then 3 else FailureThreshold s)"
  by (simp_all add: with_defaults_def)

lemma saved_simps:
  "ID s \<noteq> 0 \<Longrightarrow> ID (saved d s) = ID s"
  "ConsecutiveFailures (saved d s) = ConsecutiveFailures s"
  "Status s \<noteq> [] \<Longrightarrow> Status (saved d s) = Status s"
  "FailureThreshold s \<noteq> 0 \<Longrightarrow> FailureThreshold (saved d s) = FailureThreshold s"
  "ID s \<noteq> 0 \<Longrightarrow> row_of d (ID s) \<noteq> None \<Longrightarrow> saved d s = s"
  by (auto simp add: saved_def with_defaults_simps)

lemma Save_ok:
  "Save d s DbOk = (err, s', d') \<Longrightarrow>
     err = None \<and> row_of d' (ID s') = Some s' \<and> s' = saved d s"
  using find_upsert [of "saved d s" "services d"]
  by (auto simp add: Save_def row_of_def)

lemma Save_error: "Save d s (DbError e) = (Some e, s, d)"
  by (simp add: Save_def)

lemma Save_cases:
  obtains (failed) e where "reply = DbError e" "Save d s reply = (Some e, s, d)"
  | (stored) s' d' where "reply = DbOk" "Save d s reply = (None, s', d')"
      "row_of d' (ID s') = Some s'" "s' = saved d s"
proof (cases reply)
  case DbOk
  obtain err s' d' where *: "Save d s DbOk = (err, s', d')"
    by (cases "Save d s DbOk") auto
  from Save_ok [OF *] * DbOk show ?thesis
    by (intro stored [of s' d']) auto
next
  case (DbError e)
  then show ?thesis using Save_error [of d s e] failed by simp
qed

lemma advance_ID:
  "ID (if succ then RecordSuccess now s else RecordFailure now s) = ID s"
  by (simp add: RecordSuccess_def RecordFailure_def Let_def)

text \<open>
  What a call of \<open>UpdateServiceState\<close> returns, in terms of the state machine and of
  whether the save went through.
\<close>

lemma UpdateServiceState_record:
  assumes "UpdateServiceState d s succ now reply = ((sc, err), s', d')"
  shows "s' = (if err = None
               then saved d (if succ then RecordSuccess now s else RecordFailure now s)
               else (if succ then RecordSuccess now s else RecordFailure now s))"
proof (cases rule: Save_cases [of reply d "if succ then RecordSuccess now s else RecordFailure now s"])
  case (failed e)
  with assms show ?thesis
    by (auto simp add: UpdateServiceState_def Let_def split: if_splits)
next
  case (stored s2 d2)
  with assms show ?thesis
    by (auto simp add: UpdateServiceState_def Let_def split: if_splits)
qed

lemma UpdateServiceState_result:
  assumes "UpdateServiceState d s succ now reply = ((sc, err), s', d')"
  shows "(err = None \<longrightarrow> reply = DbOk \<and> row_of d' (ID s') = Some s')
       \<and> (err \<noteq> None \<longrightarrow> d' = d \<and> sc = None)
       \<and> (ID s \<noteq> 0 \<longrightarrow> ID s' = ID s)
       \<and> ConsecutiveFailures s' =
           ConsecutiveFailures (if succ then RecordSuccess now s else RecordFailure now s)
       \<and> sc = (if err = None \<and> Status s \<noteq> Status s'
               then Some \<lparr>From = Status s, To = Status s'\<rparr> else None)"
proof (cases rule: Save_cases [of reply d "if succ then RecordSuccess now s else RecordFailure now s"])
  case (failed e)
  with assms advance_ID [of succ now s] show ?thesis
    by (auto simp add: UpdateServiceState_def Let_def split: if_splits)
next
  case (stored s2 d2)
  with assms advance_ID [of succ now s] show ?thesis
    by (auto simp add: UpdateServiceState_def Let_def saved_simps split: if_splits)
qed

text \<open>
  A record with a status and a threshold keeps both through the save, whether its row is
  replaced or inserted.
\<close>

lemma UpdateServiceState_fields:
  assumes "UpdateServiceState d s succ now reply = ((sc, err), s', d')"
      and "Status s \<noteq> []" and "FailureThreshold s \<noteq> 0"
  shows "Status s' = Status (if succ then RecordSuccess now s else RecordFailure now s)"
    and "FailureThreshold s' = FailureThreshold s"
proof -
  let ?a = "if succ then RecordSuccess now s else RecordFailure now s"
  have st: "Status ?a \<noteq> []"
    using assms(2) by (simp add: RecordSuccess_simps RecordFailure_simps)
  have th: "FailureThreshold ?a = FailureThreshold s"
    by (simp add: RecordSuccess_simps RecordFailure_simps)
  note r = UpdateServiceState_record [OF assms(1)]
  show "Status s' = Status ?a"
  proof (cases err)
    case None
    with r st show ?thesis
      by (simp add: saved_simps)
  next
    case (Some e)
    with r show ?thesis
      by simp
  qed
  show "FailureThreshold s' = FailureThreshold s"
  proof (cases err)
    case None
    with r th assms(3) show ?thesis
      by (simp add: saved_simps)
  next
    case (Some e)
    with r th show ?thesis
      by simp
  qed
qed

text \<open>
  Claim C1, amended. Let the record handed to \<open>UpdateServiceState\<close> have status \<open>UP\<close> or
  \<open>DOWN\<close>, a threshold of at least 1, status \<open>DOWN\<close> exactly when its counter has reached
  the threshold, and a counter below the largest \<open>int64\<close>. When the call completes without
  error, the record it has persisted has status \<open>DOWN\<close> exactly when its counter has
  reached the threshold; status \<open>UP\<close> implies a counter below the threshold (not a
  counter of 0: failures below the threshold are counted while the status stays \<open>UP\<close>);
  and after a successful probe the status is \<open>UP\<close> and the counter 0. The conclusion
  restores every hypothesis but the bound on the counter, which is what a record needs
  for the next call.
\<close>

theorem UpdateServiceState_status_counter:
  assumes "Status s = ''UP'' \<or> Status s = ''DOWN''"
      and "Status s = ''DOWN'' \<longleftrightarrow> sint (FailureThreshold s) \<le> sint (ConsecutiveFailures s)"
      and "sint (ConsecutiveFailures s) < 9223372036854775807"
      and "1 \<le> sint (FailureThreshold s)"
      and "UpdateServiceState d s succ now reply = ((sc, None), s', d')"
  shows "(Status s' = ''DOWN'' \<longleftrightarrow> sint (FailureThreshold s') \<le> sint (ConsecutiveFailures s'))
       \<and> (Status s' = ''UP'' \<or> Status s' = ''DOWN'')
       \<and> (Status s' = ''UP'' \<longrightarrow> sint (ConsecutiveFailures s') < sint (FailureThreshold s'))
       \<and> (succ \<longrightarrow> Status s' = ''UP'' \<and> ConsecutiveFailures s' = 0)
       \<and> FailureThreshold s' = FailureThreshold s
       \<and> row_of d' (ID s') = Some s'"
proof -
  have nz: "Status s \<noteq> []"
    using assms(1) by auto
  have tz: "FailureThreshold s \<noteq> 0"
    using assms(4) by auto
  note r = UpdateServiceState_result [OF assms(5)]
  note f = UpdateServiceState_fields [OF assms(5) nz tz]
  show ?thesis
  proof (cases succ)
    case True
    with r f assms(4) show ?thesis
      by (simp add: RecordSuccess_simps)
  next
    case False
    with r f assms(1-4) sint_succ_int64 [OF assms(3)] show ?thesis
      by (auto simp add: RecordFailure_simps)
  qed
qed

text \<open>The first failed probe of the seed service: the save goes through.\<close>

lemma seed_first_failure:
  "UpdateServiceState seed_db seed False 100 DbOk =
     ((None, None), seed\<lparr>ConsecutiveFailures := 1, LastCheckedAt := Some 100\<rparr>,
      seed_db\<lparr>services := [seed\<lparr>ConsecutiveFailures := 1, LastCheckedAt := Some 100\<rparr>]\<rparr>)"
  by (simp add: UpdateServiceState_def Save_def saved_def with_defaults_def row_of_def RecordFailure_def ShouldMarkDown_def
      seed_def seed_db_def Let_def)

theorem UpdateServiceState_status_counter_witness:
  "UpdateServiceState seed_db seed False 100 DbOk =
     ((None, None), seed\<lparr>ConsecutiveFailures := 1, LastCheckedAt := Some 100\<rparr>,
      seed_db\<lparr>services := [seed\<lparr>ConsecutiveFailures := 1, LastCheckedAt := Some 100\<rparr>]\<rparr>)
   \<and> Status (seed\<lparr>ConsecutiveFailures := 1, LastCheckedAt := Some 100\<rparr>) = ''UP''
   \<and> sint (ConsecutiveFailures (seed\<lparr>ConsecutiveFailures := 1, LastCheckedAt := Some 100\<rparr>))
       < sint (FailureThreshold (seed\<lparr>ConsecutiveFailures := 1, LastCheckedAt := Some 100\<rparr>))
   \<and> row_of (seed_db\<lparr>services := [seed\<lparr>ConsecutiveFailures := 1, LastCheckedAt := Some 100\<rparr>]\<rparr>) 1
       = Some (seed\<lparr>ConsecutiveFailures := 1, LastCheckedAt := Some 100\<rparr>)"
proof -
  have h1: "Status seed = ''UP'' \<or> Status seed = ''DOWN''"
    by (simp add: seed_def)
  have h2: "Status seed = ''DOWN'' \<longleftrightarrow> sint (FailureThreshold seed) \<le> sint (ConsecutiveFailures seed)"
    by (simp add: seed_def)
  have h3: "sint (ConsecutiveFailures seed) < 9223372036854775807"
    by (simp add: seed_def)
  have h4: "1 \<le> sint (FailureThreshold seed)"
    by (simp add: seed_def)
  show ?thesis
    using UpdateServiceState_status_counter [OF h1 h2 h3 h4 seed_first_failure] seed_first_failure
    by (simp add: seed_def)
qed

text \<open>
  The claim as stated fails on the seed service, which satisfies every invariant of the
  data model: after one failed probe the persisted record has status \<open>UP\<close> and one
  consecutive failure.
\<close>

theorem UpdateServiceState_UP_with_failures:
  "Status seed = ''UP'' \<and> ConsecutiveFailures seed = 0 \<and> sint (FailureThreshold seed) = 3
   \<and> snd (fst (UpdateServiceState seed_db seed False 100 DbOk)) = None
   \<and> Status (fst (snd (UpdateServiceState seed_db seed False 100 DbOk))) = ''UP''
   \<and> ConsecutiveFailures (fst (snd (UpdateServiceState seed_db seed False 100 DbOk))) = 1
   \<and> ConsecutiveFailures (fst (snd (UpdateServiceState seed_db seed False 100 DbOk))) \<noteq> 0"
  by (simp add: seed_first_failure) (simp add: seed_def)

text \<open>
  Why the counter must be below the largest \<open>int64\<close>: there the increment wraps, the
  comparison with the threshold fails, and the status stays \<open>DOWN\<close> beside a negative
  counter.
\<close>

lemma RecordFailure_counter_wraps:
  "Status (RecordFailure 7 (seed\<lparr>Status := ''DOWN'', ConsecutiveFailures := 9223372036854775807\<rparr>)) = ''DOWN''
   \<and> sint (ConsecutiveFailures (RecordFailure 7
         (seed\<lparr>Status := ''DOWN'', ConsecutiveFailures := 9223372036854775807\<rparr>)))
       = - 9223372036854775808"
  by (simp add: seed_def RecordFailure_simps)

section \<open>The worker\<close>


lemma SaveServiceCheckLog_entry:
  "SaveServiceCheckLog d service st code ms msg now reply = (lerr, logEntry, d1) \<Longrightarrow>
     logEntry = \<lparr>LogExternalServiceID = ID service, LogStatus = st, LogStatusCode = code,
                  LogResponseTimeMs = ms, LogErrorMessage = msg, LogCheckedAt = now\<rparr>
     \<and> services d1 = services d"
  by (auto simp add: SaveServiceCheckLog_def Let_def split: db_reply.splits)

lemma effects_append: "effects (xs @ ys) = effects xs @ effects ys"
  by (simp add: effects_def)

lemma effects_Cons:
  "effects (e # xs) = (if is_LogLine e then effects xs else e # effects xs)"
  by (simp add: effects_def)

lemma effects_Nil: "effects [] = []"
  by (simp add: effects_def)

lemma effects_broadcast:
  "effects (BroadcastStateChange service change now merr) =
     (case merr of
        None \<Rightarrow> [HubBroadcast \<lparr>EventType = ''service_state_change'', EventServiceID = ID service,
                    EventName = Name service, EventFrom = From change, EventTo = To change,
                    EventTimestamp = now\<rparr>]
      | Some e \<Rightarrow> [])"
  by (simp add: BroadcastStateChange_def effects_def Let_def split: option.splits)

text \<open>The trace of a message that is processed to completion.\<close>

lemma process_message_complete:
  assumes "decoded env = Some job"
      and "GetServiceByName d (ServiceName job) (lookup_reply env) = (Some service, None)"
      and "request_error env = None"
      and "SaveServiceCheckLog d service (status (classify (probe env)))
             (statusCode (classify (probe env))) (latencyMs env)
             (errorMsg (classify (probe env))) (log_now env) (log_reply env) = (lerr, logEntry, d1)"
      and "UpdateServiceState d1 service (success (classify (probe env))) (save_now env)
             (save_reply env) = ((sc, uerr), service', d2)"
  shows "process_message d env =
           ([HttpDo (Method job) (JobURL job) (Timeout job), AppendLog logEntry]
            @ (case lerr of Some e \<Rightarrow> [LogLine ''[WORKER] log_save_failed''] | None \<Rightarrow> [])
            @ [UpdateState (ID service) (success (classify (probe env)))]
            @ (case uerr of Some e \<Rightarrow> [LogLine ''[WORKER] state_update_failed''] | None \<Rightarrow> [])
            @ (case sc of
                 Some change \<Rightarrow>
                   LogLine ''[STATE_TRANSITION]''
                     # BroadcastStateChange service' change (event_now env) (marshal_error env)
               | None \<Rightarrow> [])
            @ [LogLine ''[WORKER] check_completed'', Ack], d2)"
  unfolding process_message_def Let_def assms option.case prod.case
  by (rule refl)

lemma effects_complete:
  assumes "decoded env = Some job"
      and "GetServiceByName d (ServiceName job) (lookup_reply env) = (Some service, None)"
      and "request_error env = None"
      and "SaveServiceCheckLog d service (status (classify (probe env)))
             (statusCode (classify (probe env))) (latencyMs env)
             (errorMsg (classify (probe env))) (log_now env) (log_reply env) = (lerr, logEntry, d1)"
      and "UpdateServiceState d1 service (success (classify (probe env))) (save_now env)
             (save_reply env) = ((sc, uerr), service', d2)"
  shows "effects (fst (process_message d env)) =
           [HttpDo (Method job) (JobURL job) (Timeout job), AppendLog logEntry,
            UpdateState (ID service) (success (classify (probe env)))]
           @ (case sc of
                Some change \<Rightarrow>
                  effects (BroadcastStateChange service' change (event_now env) (marshal_error env))
              | None \<Rightarrow> [])
           @ [Ack]"
  unfolding process_message_complete [OF assms] fst_conv
  by (cases lerr; cases uerr; cases sc) (simp_all add: effects_append effects_Cons effects_Nil)

text \<open>The trace of a message that is rejected.\<close>

lemma process_message_incomplete:
  assumes "decoded env = None
           \<or> (\<exists>job. decoded env = Some job \<and>
                 (snd (GetServiceByName d (ServiceName job) (lookup_reply env)) \<noteq> None
                  \<or> fst (GetServiceByName d (ServiceName job) (lookup_reply env)) = None
                  \<or> request_error env \<noteq> None))"
  shows "effects (fst (process_message d env)) = [Nack]
         \<or> effects (fst (process_message d env)) = [Panic ''nil pointer dereference'']"
proof (cases "decoded env")
  case None
  then show ?thesis
    by (simp add: process_message_def effects_def)
next
  case (Some job)
  obtain svc gerr where g: "GetServiceByName d (ServiceName job) (lookup_reply env) = (svc, gerr)"
    by (cases "GetServiceByName d (ServiceName job) (lookup_reply env)")
  show ?thesis
  proof (cases gerr)
    case (Some e)
    with \<open>decoded env = Some job\<close> g show ?thesis
      by (cases svc) (simp_all add: process_message_def effects_def)
  next
    case None
    note gerr = this
    show ?thesis
    proof (cases svc)
      case None
      with \<open>decoded env = Some job\<close> g gerr show ?thesis
        by (simp add: process_message_def effects_def)
    next
      case (Some service)
      with assms \<open>decoded env = Some job\<close> g gerr obtain e where "request_error env = Some e"
        by auto
      with \<open>decoded env = Some job\<close> g gerr Some show ?thesis
        by (simp add: process_message_def effects_def)
    qed
  qed
qed

text \<open>
  Whatever the worker does beyond a \<open>Nack\<close> belongs to a message that was processed to
  completion.
\<close>

lemma process_message_completeE:
  assumes "e \<in> set (effects (fst (process_message d env)))"
      and "e \<noteq> Nack" and "e \<noteq> Panic ''nil pointer dereference''"
  obtains job service lerr logEntry d1 sc uerr service' d2
  where "decoded env = Some job"
    and "GetServiceByName d (ServiceName job) (lookup_reply env) = (Some service, None)"
    and "request_error env = None"
    and "SaveServiceCheckLog d service (status (classify (probe env)))
               (statusCode (classify (probe env))) (latencyMs env)
               (errorMsg (classify (probe env))) (log_now env) (log_reply env)
             = (lerr, logEntry, d1)"
    and "UpdateServiceState d1 service (success (classify (probe env))) (save_now env)
               (save_reply env) = ((sc, uerr), service', d2)"
proof -
  have complete: "\<not> (decoded env = None
           \<or> (\<exists>job. decoded env = Some job \<and>
                 (snd (GetServiceByName d (ServiceName job) (lookup_reply env)) \<noteq> None
                  \<or> fst (GetServiceByName d (ServiceName job) (lookup_reply env)) = None
                  \<or> request_error env \<noteq> None)))"
  proof
    assume "decoded env = None
           \<or> (\<exists>job. decoded env = Some job \<and>
                 (snd (GetServiceByName d (ServiceName job) (lookup_reply env)) \<noteq> None
                  \<or> fst (GetServiceByName d (ServiceName job) (lookup_reply env)) = None
                  \<or> request_error env \<noteq> None))"
    from process_message_incomplete [OF this] assms show False
      by auto
  qed
  then obtain job where job: "decoded env = Some job"
    by auto
  from complete job obtain service
    where svc: "GetServiceByName d (ServiceName job) (lookup_reply env) = (Some service, None)"
      and req: "request_error env = None"
    by (cases "GetServiceByName d (ServiceName job) (lookup_reply env)") auto
  obtain lerr logEntry d1
    where lg: "SaveServiceCheckLog d service (status (classify (probe env)))
               (statusCode (classify (probe env))) (latencyMs env)
               (errorMsg (classify (probe env))) (log_now env) (log_reply env)
             = (lerr, logEntry, d1)"
    using prod_cases3 by blast
  obtain sc uerr service' d2
    where up: "UpdateServiceState d1 service (success (classify (probe env))) (save_now env)
               (save_reply env) = ((sc, uerr), service', d2)"
    using prod_cases4 by (metis surj_pair)
  from job svc req lg up show thesis
    by (rule that)
qed

text \<open>
  A send on the hub's channel comes from a state change that \<open>UpdateServiceState\<close>
  returned.
\<close>

lemma process_message_broadcast:
  assumes "HubBroadcast ev \<in> set (fst (process_message d env))"
  shows "\<exists>job service lerr logEntry d1 change service' d2.
           decoded env = Some job
         \<and> GetServiceByName d (ServiceName job) (lookup_reply env) = (Some service, None)
         \<and> SaveServiceCheckLog d service (status (classify (probe env)))
               (statusCode (classify (probe env))) (latencyMs env)
               (errorMsg (classify (probe env))) (log_now env) (log_reply env)
             = (lerr, logEntry, d1)
         \<and> UpdateServiceState d1 service (success (classify (probe env))) (save_now env)
               (save_reply env) = ((Some change, None), service', d2)
         \<and> snd (process_message d env) = d2
         \<and> EventFrom ev = From change \<and> EventTo ev = To change
         \<and> EventFrom ev \<noteq> EventTo ev"
proof -
  have mem: "HubBroadcast ev \<in> set (effects (fst (process_message d env)))"
    using assms by (simp add: effects_def)
  then show ?thesis
  proof (rule process_message_completeE)
    fix job service lerr logEntry d1 sc uerr service' d2
    assume job: "decoded env = Some job"
      and svc: "GetServiceByName d (ServiceName job) (lookup_reply env) = (Some service, None)"
      and req: "request_error env = None"
      and lg: "SaveServiceCheckLog d service (status (classify (probe env)))
               (statusCode (classify (probe env))) (latencyMs env)
               (errorMsg (classify (probe env))) (log_now env) (log_reply env)
             = (lerr, logEntry, d1)"
      and up: "UpdateServiceState d1 service (success (classify (probe env))) (save_now env)
               (save_reply env) = ((sc, uerr), service', d2)"
    from effects_complete [OF job svc req lg up] mem
    obtain change where sc: "sc = Some change"
      and ev: "HubBroadcast ev \<in> set (effects (BroadcastStateChange service' change
                  (event_now env) (marshal_error env)))"
      by (cases sc) auto
    from ev have ft: "EventFrom ev = From change \<and> EventTo ev = To change"
      by (auto simp add: effects_broadcast split: option.splits)
    from UpdateServiceState_result [OF up] sc
    have "uerr = None" and "From change \<noteq> To change"
      by (auto split: if_splits)
    moreover have "snd (process_message d env) = d2"
      by (simp add: process_message_complete [OF job svc req lg up])
    ultimately show ?thesis
      using job svc lg up sc ft by auto
  qed simp_all
qed



text \<open>
  Whether a state change is returned, in terms of the record in the caller's hands: the
  save went through and the record's status is no longer the one it had on entry.
\<close>

lemma UpdateServiceState_change:
  assumes "UpdateServiceState d s succ now reply = ((sc, err), s', d')"
  shows "(sc \<noteq> None \<longleftrightarrow> err = None \<and> Status s' \<noteq> Status s)
       \<and> (\<forall>c. sc = Some c \<longrightarrow> From c = Status s \<and> To c = Status s')"
  using UpdateServiceState_result [OF assms]
  by (auto split: if_splits)

text \<open>
  A record that is the row stored under its key is written back under that key, field
  for field as the state machine left it.
\<close>

lemma UpdateServiceState_of_row:
  assumes "ID s \<noteq> 0" and "row_of d (ID s) = Some s"
      and "UpdateServiceState d s succ now reply = ((sc, err), s', d')"
  shows "s' = (if succ then RecordSuccess now s else RecordFailure now s)"
    and "map_option Status (row_of d' (ID s)) = Some (if err = None then Status s' else Status s)"
proof -
  let ?a = "if succ then RecordSuccess now s else RecordFailure now s"
  have "saved d ?a = ?a"
    using assms(1,2) advance_ID [of succ now s] by (intro saved_simps(5)) simp_all
  with UpdateServiceState_record [OF assms(3)] show s': "s' = ?a"
    by (cases succ; cases err) simp_all
  note r = UpdateServiceState_result [OF assms(3)]
  show "map_option Status (row_of d' (ID s)) = Some (if err = None then Status s' else Status s)"
  proof (cases err)
    case None
    with r assms(1) have "row_of d' (ID s) = Some s'"
      by auto
    with None show ?thesis
      by simp
  next
    case (Some e)
    with r assms(2) show ?thesis
      by simp
  qed
qed

text \<open>The worker's record is a row of the store it was read from.\<close>

lemma first_row_mem: "first_row rows = Some r \<Longrightarrow> r \<in> set rows"
  by (induction rows arbitrary: r) (auto split: option.splits if_splits)

lemma GetServiceByName_row:
  assumes "GetServiceByName d name reply = (Some service, None)"
  shows "service \<in> set (services d)"
proof -
  from assms have "first_row (if name = [] then services d
                     else filter (\<lambda>r. Name r = name) (services d)) = Some service"
    by (auto simp add: GetServiceByName_def split: db_reply.splits option.splits)
  from first_row_mem [OF this] show ?thesis
    by (auto split: if_splits)
qed

lemma find_distinct_key:
  "distinct (map ID rows) \<Longrightarrow> r \<in> set rows \<Longrightarrow> find (\<lambda>x. ID x = ID r) rows = Some r"
  by (induction rows) (auto simp add: image_iff)

lemma primary_key_row:
  assumes "primary_key d" and "r \<in> set (services d)"
  shows "row_of d (ID r) = Some r" and "ID r \<noteq> 0"
  using assms find_distinct_key [of "services d" r]
  by (auto simp add: primary_key_def row_of_def)

text \<open>
  Claim C2, amended. Let the record handed to \<open>UpdateServiceState\<close> be the row stored
  under its key, as it is when the worker has just looked it up and nothing else has
  written the row since. Then the call returns a state change exactly when the stored
  status after the call differs from the stored status before it, and the change carries
  the old status in \<open>From\<close> and the new one in \<open>To\<close>. In the worker, over a table whose
  keys are distinct and not zero, every send to the hub follows such a change of the
  stored status of the service looked up, and carries it; a non-transition broadcasts
  nothing.
\<close>

theorem StateChange_iff_stored_status_changed:
  "(ID s \<noteq> 0 \<and> row_of d (ID s) = Some s
      \<and> UpdateServiceState d s succ now reply = ((sc, err), s', d') \<longrightarrow>
      (sc \<noteq> None \<longleftrightarrow>
         map_option Status (row_of d' (ID s)) \<noteq> map_option Status (row_of d (ID s)))
    \<and> (\<forall>c. sc = Some c \<longrightarrow>
           Some (From c) = map_option Status (row_of d (ID s))
         \<and> Some (To c) = map_option Status (row_of d' (ID s))))
   \<and> (primary_key d0 \<and> HubBroadcast ev \<in> set (fst (process_message d0 env)) \<longrightarrow>
        (\<exists>job service.
           decoded env = Some job
         \<and> GetServiceByName d0 (ServiceName job) (lookup_reply env) = (Some service, None)
         \<and> map_option Status (row_of d0 (ID service)) = Some (EventFrom ev)
         \<and> map_option Status (row_of (snd (process_message d0 env)) (ID service))
             = Some (EventTo ev)
         \<and> EventFrom ev \<noteq> EventTo ev))"
proof (intro conjI impI)
  assume h: "ID s \<noteq> 0 \<and> row_of d (ID s) = Some s
      \<and> UpdateServiceState d s succ now reply = ((sc, err), s', d')"
  then have k: "ID s \<noteq> 0" and row: "row_of d (ID s) = Some s"
    and up: "UpdateServiceState d s succ now reply = ((sc, err), s', d')"
    by simp_all
  note after = UpdateServiceState_of_row(2) [OF k row up]
  note ch = UpdateServiceState_change [OF up]
  from ch after row
  show "sc \<noteq> None \<longleftrightarrow>
         map_option Status (row_of d' (ID s)) \<noteq> map_option Status (row_of d (ID s))"
    by (cases err) auto
  from ch after row
  show "\<forall>c. sc = Some c \<longrightarrow>
           Some (From c) = map_option Status (row_of d (ID s))
         \<and> Some (To c) = map_option Status (row_of d' (ID s))"
    by (cases err) auto
next
  assume h: "primary_key d0 \<and> HubBroadcast ev \<in> set (fst (process_message d0 env))"
  then have pk: "primary_key d0" and b: "HubBroadcast ev \<in> set (fst (process_message d0 env))"
    by simp_all
  from process_message_broadcast [OF b]
  obtain job service lerr logEntry d1 change service' d2
    where job: "decoded env = Some job"
      and svc: "GetServiceByName d0 (ServiceName job) (lookup_reply env) = (Some service, None)"
      and lg: "SaveServiceCheckLog d0 service (status (classify (probe env)))
               (statusCode (classify (probe env))) (latencyMs env)
               (errorMsg (classify (probe env))) (log_now env) (log_reply env)
             = (lerr, logEntry, d1)"
      and up: "UpdateServiceState d1 service (success (classify (probe env))) (save_now env)
               (save_reply env) = ((Some change, None), service', d2)"
      and d2: "snd (process_message d0 env) = d2"
      and ft: "EventFrom ev = From change" "EventTo ev = To change" "EventFrom ev \<noteq> EventTo ev"
    by blast
  note row0 = primary_key_row [OF pk GetServiceByName_row [OF svc]]
  from SaveServiceCheckLog_entry [OF lg] have same: "row_of d1 = row_of d0"
    by (auto simp add: row_of_def)
  from row0 same have row1: "row_of d1 (ID service) = Some service"
    by simp
  from UpdateServiceState_of_row(2) [OF row0(2) row1 up]
  have after: "map_option Status (row_of d2 (ID service)) = Some (Status service')"
    by simp
  from UpdateServiceState_change [OF up]
  have "From change = Status service" and "To change = Status service'"
    by simp_all
  with row0 after d2 ft job svc
  show "\<exists>job service.
           decoded env = Some job
         \<and> GetServiceByName d0 (ServiceName job) (lookup_reply env) = (Some service, None)
         \<and> map_option Status (row_of d0 (ID service)) = Some (EventFrom ev)
         \<and> map_option Status (row_of (snd (process_message d0 env)) (ID service))
             = Some (EventTo ev)
         \<and> EventFrom ev \<noteq> EventTo ev"
    by (intro exI [of _ job] exI [of _ service]) simp
qed

text \<open>
  The first failed probe of the service with threshold one, and the worker's whole trace
  for it.
\<close>

lemma fragile_failure:
  "UpdateServiceState fragile_db fragile False 101 DbOk =
     ((Some \<lparr>From = ''UP'', To = ''DOWN''\<rparr>, None),
      fragile\<lparr>ConsecutiveFailures := 1, LastCheckedAt := Some 101, Status := ''DOWN''\<rparr>,
      fragile_db\<lparr>services :=
        [fragile\<lparr>ConsecutiveFailures := 1, LastCheckedAt := Some 101, Status := ''DOWN''\<rparr>]\<rparr>)"
  by (simp add: UpdateServiceState_def Save_def saved_def with_defaults_def row_of_def RecordFailure_def ShouldMarkDown_def
      fragile_def fragile_db_def seed_def Let_def)

lemma fragile_refused:
  "fst (process_message fragile_db env_refused) =
     [HttpDo ''GET'' ''http://x/health'' 5000000000,
      AppendLog \<lparr>LogExternalServiceID = 1, LogStatus = ''DOWN'', LogStatusCode = 0,
                 LogResponseTimeMs = 45, LogErrorMessage = ''connection refused'',
                 LogCheckedAt = 100\<rparr>,
      UpdateState 1 False,
      LogLine ''[STATE_TRANSITION]'',
      HubBroadcast \<lparr>EventType = ''service_state_change'', EventServiceID = 1,
                    EventName = ''A'', EventFrom = ''UP'', EventTo = ''DOWN'',
                    EventTimestamp = 102\<rparr>,
      LogLine ''[WORKER] check_completed'', Ack]"
  by (simp add: process_message_def GetServiceByName_def SaveServiceCheckLog_def
      UpdateServiceState_def Save_def saved_def with_defaults_def row_of_def RecordFailure_def ShouldMarkDown_def classify_def
      BroadcastStateChange_def job_of_def Second_def env_refused_def
      fragile_def fragile_db_def seed_def Let_def)


theorem StateChange_iff_stored_status_changed_witness:
  "ID fragile \<noteq> 0 \<and> row_of fragile_db (ID fragile) = Some fragile
   \<and> UpdateServiceState fragile_db fragile False 101 DbOk =
     ((Some \<lparr>From = ''UP'', To = ''DOWN''\<rparr>, None),
      fragile\<lparr>ConsecutiveFailures := 1, LastCheckedAt := Some 101, Status := ''DOWN''\<rparr>,
      fragile_db\<lparr>services :=
        [fragile\<lparr>ConsecutiveFailures := 1, LastCheckedAt := Some 101, Status := ''DOWN''\<rparr>]\<rparr>)
   \<and> map_option Status (row_of fragile_db (ID fragile)) = Some ''UP''
   \<and> map_option Status
        (row_of (fragile_db\<lparr>services :=
           [fragile\<lparr>ConsecutiveFailures := 1, LastCheckedAt := Some 101, Status := ''DOWN''\<rparr>]\<rparr>)
           (ID fragile)) = Some ''DOWN''
   \<and> primary_key fragile_db
   \<and> HubBroadcast \<lparr>EventType = ''service_state_change'', EventServiceID = 1,
                    EventName = ''A'', EventFrom = ''UP'', EventTo = ''DOWN'',
                    EventTimestamp = 102\<rparr>
        \<in> set (fst (process_message fragile_db env_refused))
   \<and> (\<exists>job service.
         decoded env_refused = Some job
       \<and> GetServiceByName fragile_db (ServiceName job) (lookup_reply env_refused)
           = (Some service, None)
       \<and> map_option Status (row_of fragile_db (ID service)) = Some ''UP''
       \<and> map_option Status (row_of (snd (process_message fragile_db env_refused)) (ID service))
           = Some ''DOWN'')"
proof -
  have b: "HubBroadcast \<lparr>EventType = ''service_state_change'', EventServiceID = 1,
                    EventName = ''A'', EventFrom = ''UP'', EventTo = ''DOWN'',
                    EventTimestamp = 102\<rparr>
        \<in> set (fst (process_message fragile_db env_refused))"
    by (simp add: fragile_refused)
  have r: "ID fragile \<noteq> 0 \<and> row_of fragile_db (ID fragile) = Some fragile"
    by (simp add: row_of_def fragile_db_def fragile_def seed_def)
  have pk: "primary_key fragile_db"
    by (simp add: primary_key_def fragile_db_def fragile_def seed_def)
  note t = StateChange_iff_stored_status_changed
    [of fragile fragile_db False 101 DbOk "Some \<lparr>From = ''UP'', To = ''DOWN''\<rparr>" None
      "fragile\<lparr>ConsecutiveFailures := 1, LastCheckedAt := Some 101, Status := ''DOWN''\<rparr>"
      "fragile_db\<lparr>services :=
        [fragile\<lparr>ConsecutiveFailures := 1, LastCheckedAt := Some 101, Status := ''DOWN''\<rparr>]\<rparr>"
      fragile_db
      "\<lparr>EventType = ''service_state_change'', EventServiceID = 1,
                    EventName = ''A'', EventFrom = ''UP'', EventTo = ''DOWN'',
                    EventTimestamp = 102\<rparr>" env_refused]
  from t [THEN conjunct1, THEN mp] r fragile_failure
  have stored: "map_option Status (row_of fragile_db (ID fragile)) = Some ''UP''
     \<and> map_option Status
        (row_of (fragile_db\<lparr>services :=
           [fragile\<lparr>ConsecutiveFailures := 1, LastCheckedAt := Some 101, Status := ''DOWN''\<rparr>]\<rparr>)
           (ID fragile)) = Some ''DOWN''"
    by simp
  from t [THEN conjunct2, THEN mp] pk b
  have sent: "\<exists>job service.
         decoded env_refused = Some job
       \<and> GetServiceByName fragile_db (ServiceName job) (lookup_reply env_refused)
           = (Some service, None)
       \<and> map_option Status (row_of fragile_db (ID service)) = Some ''UP''
       \<and> map_option Status (row_of (snd (process_message fragile_db env_refused)) (ID service))
           = Some ''DOWN''"
    by simp
  from r fragile_failure stored pk b sent show ?thesis
    by blast
qed

text \<open>
  The claim as stated, for every service record, fails on a record that is not the
  stored row. The row of the seed service is \<open>DOWN\<close> with three failures; the caller's
  copy is still \<open>UP\<close> with none. A failed probe takes the copy to \<open>UP\<close> with one failure,
  which the save writes over the row: the stored status goes from \<open>DOWN\<close> to \<open>UP\<close> and no
  state change is returned.
\<close>

theorem StateChange_missed_on_stale_record:
  "map_option Status (row_of stale_db (ID seed)) = Some ''DOWN''
   \<and> fst (UpdateServiceState stale_db seed False 100 DbOk) = (None, None)
   \<and> map_option Status
        (row_of (snd (snd (UpdateServiceState stale_db seed False 100 DbOk))) (ID seed))
       = Some ''UP''"
  by (simp add: UpdateServiceState_def Save_def saved_def row_of_def RecordFailure_def
      ShouldMarkDown_def stale_db_def seed_def Let_def)

text \<open>
  Claim C3. When the payload decodes, the service resolves and the request builds, the
  worker's effects are, in this order: the request, one append to the probe log, the
  call of \<open>UpdateServiceState\<close>, at most one send to the hub, and the \<open>Ack\<close> last. The
  whole trace, log lines included, holds exactly one append.
\<close>

theorem log_then_update_then_ack:
  assumes "decoded env = Some job"
      and "GetServiceByName d (ServiceName job) (lookup_reply env) = (Some service, None)"
      and "request_error env = None"
  shows "\<exists>logEntry bs.
           effects (fst (process_message d env)) =
             [HttpDo (Method job) (JobURL job) (Timeout job), AppendLog logEntry,
              UpdateState (ID service) (success (classify (probe env)))] @ bs @ [Ack]
         \<and> (bs = [] \<or> (\<exists>ev. bs = [HubBroadcast ev]))
         \<and> length (filter is_AppendLog (fst (process_message d env))) = 1"
proof -
  obtain lerr logEntry d1
    where lg: "SaveServiceCheckLog d service (status (classify (probe env)))
               (statusCode (classify (probe env))) (latencyMs env)
               (errorMsg (classify (probe env))) (log_now env) (log_reply env)
             = (lerr, logEntry, d1)"
    using prod_cases3 by blast
  obtain sc uerr service' d2
    where up: "UpdateServiceState d1 service (success (classify (probe env))) (save_now env)
               (save_reply env) = ((sc, uerr), service', d2)"
    using prod_cases4 by (metis surj_pair)
  note eff = effects_complete [OF assms lg up]
  have one: "length (filter is_AppendLog (fst (process_message d env))) = 1"
    unfolding process_message_complete [OF assms lg up] fst_conv
    by (cases lerr; cases uerr; cases sc; cases "marshal_error env")
      (simp_all add: BroadcastStateChange_def)
  show ?thesis
  proof (cases sc)
    case None
    with eff one show ?thesis
      by auto
  next
    case (Some change)
    with eff one show ?thesis
      by (cases "marshal_error env") (auto simp add: effects_broadcast)
  qed
qed

theorem log_then_update_then_ack_witness:
  "decoded env_refused = Some (job_of seed)
   \<and> GetServiceByName fragile_db (ServiceName (job_of seed)) (lookup_reply env_refused)
       = (Some fragile, None)
   \<and> request_error env_refused = None
   \<and> effects (fst (process_message fragile_db env_refused)) =
       [HttpDo ''GET'' ''http://x/health'' 5000000000,
        AppendLog \<lparr>LogExternalServiceID = 1, LogStatus = ''DOWN'', LogStatusCode = 0,
                   LogResponseTimeMs = 45, LogErrorMessage = ''connection refused'',
                   LogCheckedAt = 100\<rparr>,
        UpdateState 1 False,
        HubBroadcast \<lparr>EventType = ''service_state_change'', EventServiceID = 1,
                      EventName = ''A'', EventFrom = ''UP'', EventTo = ''DOWN'',
                      EventTimestamp = 102\<rparr>,
        Ack]
   \<and> length (filter is_AppendLog (fst (process_message fragile_db env_refused))) = 1"
proof -
  have g: "GetServiceByName fragile_db (ServiceName (job_of seed)) (lookup_reply env_refused)
             = (Some fragile, None)"
    by (simp add: GetServiceByName_def env_refused_def fragile_db_def fragile_def seed_def
        job_of_def)
  have j: "decoded env_refused = Some (job_of seed)"
    by (simp add: env_refused_def)
  have q: "request_error env_refused = None"
    by (simp add: env_refused_def)
  from log_then_update_then_ack [OF j g q] g j q show ?thesis
    by (simp add: fragile_refused effects_def)
qed



section \<open>Registration\<close>

text \<open>
  The checks of \<open>RegisterService\<close> reject exactly the services that fail validation in
  the specification's sense, each with the text of the first check that fails; a
  rejected service never reaches the store.
\<close>

lemma RegisterService_rejects:
  assumes "fails_validation s"
  shows "RegisterService d (Some s) reply =
           (Some (if Name s = [] then ''service name is empty''
                  else if URL s = [] then ''service url is empty''
                  else if HTTPMethod s = [] then ''service http method is empty''
                  else if sint (TimeoutSeconds s) \<le> 0 then ''service timeout is invalid''
                  else if HTTPMethod s \<notin> set [''GET'', ''POST'', ''PUT'', ''DELETE'', ''PATCH'']
                    then ''service http method is invalid''
                  else if sint (FailureThreshold s) \<le> 0
                    then ''service failure threshold is invalid''
                  else ''service interval is invalid''), Some s, d)"
  using assms
  by (auto simp add: RegisterService_def fails_validation_def sint_nonpos_iff)

lemma RegisterService_accepts:
  assumes "\<not> fails_validation s"
  shows "RegisterService d (Some s) reply =
           (case Save d s reply of (err, s', d') \<Rightarrow> (err, Some s', d'))"
  using assms
  by (auto simp add: RegisterService_def fails_validation_def sint_nonpos_iff)

text \<open>
  On a valid service the defaults of an insert can only fill the protocol and the
  status: validation has already refused a zero in every other field that has one.
\<close>

lemma saved_valid:
  assumes "\<not> fails_validation s"
  shows "saved d s =
           (if ID s \<noteq> 0 \<and> row_of d (ID s) \<noteq> None then s
            else s\<lparr>ID := (if ID s = 0 then next_id d else ID s),
                   Protocol := (if Protocol s = [] then ''HTTP'' else Protocol s),
                   Status := (if Status s = [] then ''up'' else Status s)\<rparr>)"
proof -
  from assms have "HTTPMethod s \<noteq> []" and "Interval s \<noteq> 0" and "TimeoutSeconds s \<noteq> 0"
    and "FailureThreshold s \<noteq> 0"
    by (auto simp add: fails_validation_def)
  then show ?thesis
    by (cases s) (simp add: saved_def with_defaults_def)
qed

text \<open>
  Claim C8, amended. A registration whose service fails validation is rejected, the
  store is left as it was, and the caller receives status 500 with the text of the
  validation error (that of the first check that fails): the handler answers 500 to
  every error of the repository and 400 only to a body that does not bind or is \<open>null\<close>.
  A valid registration whose save goes through receives 201 with the service as
  persisted: under the key the store assigned when it had none, and with the defaults
  \<open>HTTP\<close> and \<open>up\<close> for a protocol or a status the request left out, unless it replaces
  a row. When the save fails it receives 500 with the store's error and nothing is
  written.
\<close>

theorem registration_responses:
  "(fails_validation s \<longrightarrow>
      Engine_RegisterService d c (Inr (Some s)) reply =
        ((500, ErrorBody
           (if Name s = [] then ''service name is empty''
            else if URL s = [] then ''service url is empty''
            else if HTTPMethod s = [] then ''service http method is empty''
            else if sint (TimeoutSeconds s) \<le> 0 then ''service timeout is invalid''
            else if HTTPMethod s \<notin> set [''GET'', ''POST'', ''PUT'', ''DELETE'', ''PATCH'']
              then ''service http method is invalid''
            else if sint (FailureThreshold s) \<le> 0
              then ''service failure threshold is invalid''
            else ''service interval is invalid'')), d, c))
   \<and> (\<not> fails_validation s \<longrightarrow>
      (\<exists>s' d'. Engine_RegisterService d c (Inr (Some s)) DbOk =
                 ((201, RegisteredBody ''service registered successfully'' s'), d',
                  cache_put (ID s') s' c)
               \<and> row_of d' (ID s') = Some s'
               \<and> s' = (if ID s \<noteq> 0 \<and> row_of d (ID s) \<noteq> None then s
                        else s\<lparr>ID := (if ID s = 0 then next_id d else ID s),
                               Protocol := (if Protocol s = [] then ''HTTP'' else Protocol s),
                               Status := (if Status s = [] then ''up'' else Status s)\<rparr>))
      \<and> Engine_RegisterService d c (Inr (Some s)) (DbError e) = ((500, ErrorBody e), d, c))"
proof (intro conjI impI)
  assume "fails_validation s"
  from RegisterService_rejects [OF this, of d reply]
  show "Engine_RegisterService d c (Inr (Some s)) reply =
        ((500, ErrorBody
           (if Name s = [] then ''service name is empty''
            else if URL s = [] then ''service url is empty''
            else if HTTPMethod s = [] then ''service http method is empty''
            else if sint (TimeoutSeconds s) \<le> 0 then ''service timeout is invalid''
            else if HTTPMethod s \<notin> set [''GET'', ''POST'', ''PUT'', ''DELETE'', ''PATCH'']
              then ''service http method is invalid''
            else if sint (FailureThreshold s) \<le> 0
              then ''service failure threshold is invalid''
            else ''service interval is invalid'')), d, c)"
    by (simp add: Engine_RegisterService_def)
next
  assume v: "\<not> fails_validation s"
  obtain err s' d' where sv: "Save d s DbOk = (err, s', d')"
    using prod_cases3 by blast
  from Save_ok [OF sv] have "err = None" and "row_of d' (ID s') = Some s'" and "s' = saved d s"
    by blast+
  with sv RegisterService_accepts [OF v, of d DbOk] saved_valid [OF v, of d]
  show "\<exists>s' d'. Engine_RegisterService d c (Inr (Some s)) DbOk =
                 ((201, RegisteredBody ''service registered successfully'' s'), d',
                  cache_put (ID s') s' c)
               \<and> row_of d' (ID s') = Some s'
               \<and> s' = (if ID s \<noteq> 0 \<and> row_of d (ID s) \<noteq> None then s
                        else s\<lparr>ID := (if ID s = 0 then next_id d else ID s),
                               Protocol := (if Protocol s = [] then ''HTTP'' else Protocol s),
                               Status := (if Status s = [] then ''up'' else Status s)\<rparr>)"
    by (intro exI [of _ s'] exI [of _ d']) (simp add: Engine_RegisterService_def)
  from RegisterService_accepts [OF v, of d "DbError e"]
  show "Engine_RegisterService d c (Inr (Some s)) (DbError e) = ((500, ErrorBody e), d, c)"
    by (simp add: Engine_RegisterService_def Save_error)
qed

text \<open>
  The specification's sixth scenario, and a valid registration beside it.
\<close>

lemma foo_rejected:
  "Engine_RegisterService seed_db [] (Inr (Some foo)) DbOk =
     ((500, ErrorBody ''service http method is invalid''), seed_db, [])"
  by (simp add: Engine_RegisterService_def RegisterService_def foo_def seed_def)

lemma newcomer_registered:
  "Engine_RegisterService seed_db [] (Inr (Some newcomer)) DbOk =
     ((201, RegisteredBody ''service registered successfully''
              (newcomer\<lparr>ID := 2, Protocol := ''HTTP'', Status := ''up''\<rparr>)),
      \<lparr>services = [seed, newcomer\<lparr>ID := 2, Protocol := ''HTTP'', Status := ''up''\<rparr>],
        logs = [], next_id = 3\<rparr>,
      [(2, newcomer\<lparr>ID := 2, Protocol := ''HTTP'', Status := ''up''\<rparr>)])"
  by (simp add: Engine_RegisterService_def RegisterService_def Save_def saved_def
      with_defaults_def newcomer_def seed_def seed_db_def)

theorem registration_responses_witness:
  "fails_validation foo \<and> \<not> fails_validation newcomer
   \<and> Engine_RegisterService seed_db [] (Inr (Some foo)) DbOk =
       ((500, ErrorBody ''service http method is invalid''), seed_db, [])
   \<and> Engine_RegisterService seed_db [] (Inr (Some newcomer)) DbOk =
       ((201, RegisteredBody ''service registered successfully''
                (newcomer\<lparr>ID := 2, Protocol := ''HTTP'', Status := ''up''\<rparr>)),
        \<lparr>services = [seed, newcomer\<lparr>ID := 2, Protocol := ''HTTP'', Status := ''up''\<rparr>],
          logs = [], next_id = 3\<rparr>,
        [(2, newcomer\<lparr>ID := 2, Protocol := ''HTTP'', Status := ''up''\<rparr>)])
   \<and> row_of \<lparr>services = [seed, newcomer\<lparr>ID := 2, Protocol := ''HTTP'', Status := ''up''\<rparr>],
               logs = [], next_id = 3\<rparr> 2
       = Some (newcomer\<lparr>ID := 2, Protocol := ''HTTP'', Status := ''up''\<rparr>)
   \<and> Engine_RegisterService seed_db [] (Inr (Some newcomer)) (DbError ''duplicate key'') =
       ((500, ErrorBody ''duplicate key''), seed_db, [])"
proof -
  have f: "fails_validation foo"
    by (simp add: fails_validation_def foo_def seed_def)
  have n: "\<not> fails_validation newcomer"
    by (simp add: fails_validation_def newcomer_def)
  note t1 = registration_responses [of foo seed_db "[]" DbOk, THEN conjunct1, THEN mp, OF f]
  note t2 = registration_responses [of newcomer seed_db "[]" _ "''duplicate key''",
      THEN conjunct2, THEN mp, OF n]
  from t1 t2 f n foo_rejected newcomer_registered show ?thesis
    by (auto simp add: row_of_def newcomer_def seed_def)
qed

text \<open>
  The claim as stated fails on the registration with method \<open>FOO\<close>, which is answered
  with 500 and not 400, and on a valid registration whose save fails (a duplicate name,
  say), which is answered with 500 and not 201.
\<close>

theorem registration_FOO_answers_500:
  "fails_validation foo
   \<and> Engine_RegisterService seed_db [] (Inr (Some foo)) DbOk =
       ((500, ErrorBody ''service http method is invalid''), seed_db, [])
   \<and> fst (fst (Engine_RegisterService seed_db [] (Inr (Some foo)) DbOk)) \<noteq> 400
   \<and> \<not> fails_validation newcomer
   \<and> fst (fst (Engine_RegisterService seed_db [] (Inr (Some newcomer))
         (DbError ''duplicate key''))) \<noteq> 201"
  by (simp add: foo_rejected)
    (simp add: Engine_RegisterService_def RegisterService_def Save_def fails_validation_def
      foo_def newcomer_def seed_def)

section \<open>The scheduler\<close>

text \<open>
  Claim C10. When the services table is empty and the query itself succeeds,
  \<open>GetAllServices\<close> returns a nil map and the error \<open>no services found\<close>, whatever the
  cache holds; the tick then logs the fetch failure and hands no job to the broker.
\<close>

theorem no_services_found:
  assumes "services d = []"
  shows "GetAllServices d c DbOk = ((None, Some ''no services found''), c)
       \<and> Scheduler_tick d c DbOk now publish = ([FetchFailed ''no services found''], c)
       \<and> scheduled_jobs (fst (Scheduler_tick d c DbOk now publish)) = []"
  using assms
  by (simp add: GetAllServices_def Scheduler_tick_def scheduled_jobs_def)

theorem no_services_found_witness:
  "services empty_db = []
   \<and> GetAllServices empty_db [(1, seed)] DbOk = ((None, Some ''no services found''), [(1, seed)])
   \<and> Scheduler_tick empty_db [(1, seed)] DbOk 100 (\<lambda>j. None)
       = ([FetchFailed ''no services found''], [(1, seed)])
   \<and> scheduled_jobs (fst (Scheduler_tick empty_db [(1, seed)] DbOk 100 (\<lambda>j. None))) = []"
proof -
  have e: "services empty_db = []"
    by (simp add: empty_db_def)
  from no_services_found [OF e, of "[(1, seed)]" 100 "\<lambda>j. None"] e show ?thesis
    by (simp add: scheduled_jobs_def)
qed

text \<open>
  Claim C5 at a failing input. The service \<open>far\<close> has the positive interval 9223372037
  seconds and was last checked at instant 0. One second later it is not due, but
  \<open>time.Duration(s.Interval) * time.Second\<close> has wrapped to a negative duration,
  \<open>shouldRun\<close> answers true, and the tick schedules a job for it.
\<close>

theorem shouldRun_interval_overflow:
  "0 < sint (Interval far) \<and> LastCheckedAt far = Some 0
   \<and> \<not> (1000000000 > 0 + sint (Interval far) * 1000000000)
   \<and> \<not> due far 1000000000
   \<and> shouldRun far 1000000000
   \<and> scheduled_jobs (fst (Scheduler_tick far_db [] DbOk 1000000000 (\<lambda>j. None))) = [job_of far]"
  by (simp add: far_def far_db_def seed_def shouldRun_def due_def Second_def Scheduler_tick_def
      GetAllServices_def scheduled_jobs_def Let_def)

text \<open>
  As long as the interval in nanoseconds fits an \<open>int64\<close>, that is up to 9223372036
  seconds, \<open>shouldRun\<close> is the specification's due-time rule.
\<close>

lemma shouldRun_due:
  assumes "0 \<le> sint (Interval s)" and "sint (Interval s) \<le> 9223372036"
  shows "shouldRun s now = due s now"
  by (simp add: shouldRun_def due_def Let_def sint_seconds [OF assms] split: option.splits)

lemma scheduled_jobs_Cons:
  "scheduled_jobs (e # evs) = (case e of Schedule j r \<Rightarrow> [j] | _ \<Rightarrow> []) @ scheduled_jobs evs"
  by (simp add: scheduled_jobs_def)

text \<open>
  A round hands to \<open>sched.Schedule\<close> the jobs of the services for which \<open>shouldRun\<close>
  holds, in the order of the iteration, whatever the broker answers.
\<close>

lemma scheduled_jobs_round:
  "scheduled_jobs (schedule_round svcs now publish)
     = map (job_of \<circ> snd) (filter (\<lambda>p. shouldRun (snd p) now) svcs)"
proof (induction svcs now publish rule: schedule_round.induct)
  case (1 now publish)
  show ?case by (simp add: scheduled_jobs_def)
next
  case (2 k s rest now publish)
  then show ?case
    by (cases "publish (job_of s)") (simp_all add: scheduled_jobs_Cons)
qed

text \<open>
  The due-time rule of the scheduler, for intervals that do not wrap: on a tick whose
  fetch succeeds, the jobs handed to \<open>sched.Schedule\<close> are those of the services that
  are due, one each, and no others.
\<close>

theorem Scheduler_tick_due:
  assumes "services d \<noteq> []"
      and "\<forall>p \<in> set (cache_fill (services d) c).
             0 \<le> sint (Interval (snd p)) \<and> sint (Interval (snd p)) \<le> 9223372036"
  shows "scheduled_jobs (fst (Scheduler_tick d c DbOk now publish))
           = map (job_of \<circ> snd) (filter (\<lambda>p. due (snd p) now) (cache_fill (services d) c))"
proof -
  have "filter (\<lambda>p. shouldRun (snd p) now) (cache_fill (services d) c)
          = filter (\<lambda>p. due (snd p) now) (cache_fill (services d) c)"
    using assms(2) by (intro filter_cong refl) (simp add: shouldRun_due)
  with assms(1) show ?thesis
    by (simp add: Scheduler_tick_def GetAllServices_def scheduled_jobs_round)
qed

theorem Scheduler_tick_due_witness:
  "scheduled_jobs (fst (Scheduler_tick two_db [] DbOk 120000000000 (\<lambda>j. None))) = [job_of svcA]
   \<and> due svcA 120000000000 \<and> \<not> due svcB 120000000000"
proof -
  have n: "services two_db \<noteq> []"
    by (simp add: two_db_def)
  have c: "cache_fill (services two_db) [] = [(1, svcA), (2, svcB)]"
    by (simp add: two_db_def svcA_def svcB_def seed_def)
  have b: "\<forall>p \<in> set (cache_fill (services two_db) []).
             0 \<le> sint (Interval (snd p)) \<and> sint (Interval (snd p)) \<le> 9223372036"
    unfolding c by (simp add: svcA_def svcB_def seed_def)
  have d: "due svcA 120000000000 \<and> \<not> due svcB 120000000000"
    by (simp add: due_def svcA_def svcB_def seed_def)
  from Scheduler_tick_due [OF n b, of 120000000000 "\<lambda>j. None"] d show ?thesis
    unfolding c by simp
qed

section \<open>The hub\<close>

text \<open>
  The loop over the clients, when it visits each of them once and none of their channels
  is closed: it returns, the clients that stay are those that had room, and every
  visited channel has either the message at the end of its buffer or is closed.
\<close>

lemma broadcast_loop_result:
  assumes "distinct cs" and "\<forall>c \<in> set cs. \<not> closed (st c)"
  shows "\<exists>h' st'. broadcast_loop cs msg h st = Inr (h', st')
           \<and> clients h' = filter (\<lambda>c. c \<notin> set cs \<or> length (buf (st c)) < cap (st c)) (clients h)
           \<and> (\<forall>c. st' c =
                 (if c \<in> set cs
                  then (if length (buf (st c)) < cap (st c)
                        then (st c)\<lparr>buf := buf (st c) @ [msg]\<rparr>
                        else (st c)\<lparr>closed := True\<rparr>)
                  else st c))"
  using assms
proof (induction cs arbitrary: h st)
  case Nil
  then show ?case by simp
next
  case (Cons c cs)
  from Cons.prems have open_c: "\<not> closed (st c)" and fresh: "c \<notin> set cs" and dist: "distinct cs"
    by simp_all
  show ?case
  proof (cases "length (buf (st c)) < cap (st c)")
    case True
    let ?st = "st(c := (st c)\<lparr>buf := buf (st c) @ [msg]\<rparr>)"
    have "\<forall>x \<in> set cs. \<not> closed (?st x)"
      using Cons.prems fresh by auto
    from Cons.IH [OF dist this, of h]
    obtain h' st' where r: "broadcast_loop cs msg h ?st = Inr (h', st')"
      and cl: "clients h' = filter (\<lambda>x. x \<notin> set cs \<or> length (buf (?st x)) < cap (?st x)) (clients h)"
      and st: "\<forall>x. st' x = (if x \<in> set cs
                  then (if length (buf (?st x)) < cap (?st x)
                        then (?st x)\<lparr>buf := buf (?st x) @ [msg]\<rparr>
                        else (?st x)\<lparr>closed := True\<rparr>)
                  else ?st x)"
      by blast
    have "filter (\<lambda>x. x \<notin> set cs \<or> length (buf (?st x)) < cap (?st x)) (clients h)
            = filter (\<lambda>x. x \<notin> set (c # cs) \<or> length (buf (st x)) < cap (st x)) (clients h)"
      using True fresh by (intro filter_cong refl) auto
    with r cl st True open_c fresh show ?thesis
      by auto
  next
    case False
    let ?st = "st(c := (st c)\<lparr>closed := True\<rparr>)"
    let ?h = "h\<lparr>clients := removeAll c (clients h)\<rparr>"
    have "\<forall>x \<in> set cs. \<not> closed (?st x)"
      using Cons.prems fresh by auto
    from Cons.IH [OF dist this, of ?h]
    obtain h' st' where r: "broadcast_loop cs msg ?h ?st = Inr (h', st')"
      and cl: "clients h' = filter (\<lambda>x. x \<notin> set cs \<or> length (buf (?st x)) < cap (?st x)) (clients ?h)"
      and st: "\<forall>x. st' x = (if x \<in> set cs
                  then (if length (buf (?st x)) < cap (?st x)
                        then (?st x)\<lparr>buf := buf (?st x) @ [msg]\<rparr>
                        else (?st x)\<lparr>closed := True\<rparr>)
                  else ?st x)"
      by blast
    have "filter (\<lambda>x. x \<notin> set cs \<or> length (buf (?st x)) < cap (?st x)) (clients ?h)
            = filter (\<lambda>x. x \<notin> set (c # cs) \<or> length (buf (st x)) < cap (st x)) (clients h)"
      using False fresh by (auto simp add: removeAll_filter_not_eq intro!: filter_cong)
    with r cl st False open_c fresh show ?thesis
      by auto
  qed
qed


text \<open>
  One broadcast, client by client.
\<close>

lemma Run_step_Broadcast:
  assumes "distinct (clients h)" and "\<forall>c \<in> set (clients h). \<not> closed (st c)"
  shows "\<exists>h' st'. Run_step (Broadcast msg) h st = Inr (h', st')
         \<and> (\<forall>c \<in> set (clients h).
               (length (buf (st c)) < cap (st c) \<longrightarrow>
                  c \<in> set (clients h') \<and> st' c = (st c)\<lparr>buf := buf (st c) @ [msg]\<rparr>)
             \<and> (\<not> length (buf (st c)) < cap (st c) \<longrightarrow>
                  c \<notin> set (clients h') \<and> st' c = (st c)\<lparr>closed := True\<rparr>))
         \<and> set (clients h') \<subseteq> set (clients h)
         \<and> distinct (clients h')
         \<and> (\<forall>c \<in> set (clients h'). \<not> closed (st' c))
         \<and> (\<forall>c. c \<notin> set (clients h) \<longrightarrow> st' c = st c)"
proof -
  from broadcast_loop_result [OF assms, of msg h]
  obtain h' st' where r: "broadcast_loop (clients h) msg h st = Inr (h', st')"
    and cl: "clients h' = filter (\<lambda>c. c \<notin> set (clients h) \<or> length (buf (st c)) < cap (st c)) (clients h)"
    and st: "\<forall>c. st' c =
                 (if c \<in> set (clients h)
                  then (if length (buf (st c)) < cap (st c)
                        then (st c)\<lparr>buf := buf (st c) @ [msg]\<rparr>
                        else (st c)\<lparr>closed := True\<rparr>)
                  else st c)"
    by blast
  have "Run_step (Broadcast msg) h st = Inr (h', st')"
    using r by (simp add: Run_step_def)
  moreover have "distinct (clients h')"
    using assms(1) cl by simp
  moreover have "\<forall>c \<in> set (clients h'). \<not> closed (st' c)"
    using assms(2) cl st by auto
  ultimately show ?thesis
    using cl st by (intro exI [of _ h'] exI [of _ st']) auto
qed

text \<open>
  Claim C6. The hub's clients are the keys of a map, so they are distinct, and their
  channels are open, since a channel is closed only when its client leaves the map. One
  broadcast then always completes, and for every client: if its buffer has room, the
  payload is appended behind the pending messages and the client stays; if its buffer is
  full (as many pending messages as its capacity, 256 for the channels the hub is
  given), the client is removed and its channel closed. What happens to a client depends
  on its own buffer only; no other channel changes, and the hub is left with distinct
  clients and open channels again.
\<close>

theorem broadcast_delivers_or_evicts:
  assumes "distinct (clients h)" and "\<forall>c \<in> set (clients h). \<not> closed (st c)"
  shows "\<exists>h' st'. Run_step (Broadcast msg) h st = Inr (h', st')
         \<and> (\<forall>c \<in> set (clients h).
               (length (buf (st c)) < cap (st c) \<longrightarrow>
                  c \<in> set (clients h') \<and> st' c = (st c)\<lparr>buf := buf (st c) @ [msg]\<rparr>)
             \<and> (\<not> length (buf (st c)) < cap (st c) \<longrightarrow>
                  c \<notin> set (clients h') \<and> st' c = (st c)\<lparr>closed := True\<rparr>))
         \<and> set (clients h') \<subseteq> set (clients h)
         \<and> distinct (clients h')
         \<and> (\<forall>c \<in> set (clients h'). \<not> closed (st' c))
         \<and> (\<forall>c. c \<notin> set (clients h) \<longrightarrow> st' c = st c)"
proof -
  from broadcast_loop_result [OF assms, of msg h]
  obtain h' st' where r: "broadcast_loop (clients h) msg h st = Inr (h', st')"
    and cl: "clients h' = filter (\<lambda>c. c \<notin> set (clients h) \<or> length (buf (st c)) < cap (st c)) (clients h)"
    and st: "\<forall>c. st' c =
                 (if c \<in> set (clients h)
                  then (if length (buf (st c)) < cap (st c)
                        then (st c)\<lparr>buf := buf (st c) @ [msg]\<rparr>
                        else (st c)\<lparr>closed := True\<rparr>)
                  else st c)"
    by blast
  have "Run_step (Broadcast msg) h st = Inr (h', st')"
    using r by (simp add: Run_step_def)
  moreover have "distinct (clients h')"
    using assms(1) cl by simp
  moreover have "\<forall>c \<in> set (clients h'). \<not> closed (st' c)"
    using assms(2) cl st by auto
  ultimately show ?thesis
    using cl st by (intro exI [of _ h'] exI [of _ st']) auto
qed

text \<open>
  One broadcast to the hub with two clients.
\<close>

lemma two_clients_broadcast:
  "broadcast_loop [1, 2] ''event'' two_clients two_chans =
     Inr (\<lparr>clients = [1]\<rparr>,
          two_chans(1 := new_Send\<lparr>buf := [''event'']\<rparr>,
                    2 := new_Send\<lparr>buf := replicate 256 ''old'', closed := True\<rparr>))"
  by (simp add: two_clients_def two_chans_def new_Send_def)

theorem broadcast_delivers_or_evicts_witness:
  "distinct (clients two_clients)
   \<and> \<not> closed (two_chans 1) \<and> \<not> closed (two_chans 2)
   \<and> length (buf (two_chans 1)) = 0 \<and> length (buf (two_chans 2)) = 256
   \<and> cap (two_chans 1) = 256 \<and> cap (two_chans 2) = 256
   \<and> Run_step (Broadcast ''event'') two_clients two_chans =
       Inr (\<lparr>clients = [1]\<rparr>,
          two_chans(1 := new_Send\<lparr>buf := [''event'']\<rparr>,
                    2 := new_Send\<lparr>buf := replicate 256 ''old'', closed := True\<rparr>))"
proof -
  have d: "distinct (clients two_clients)"
    by (simp add: two_clients_def)
  have o: "\<forall>c \<in> set (clients two_clients). \<not> closed (two_chans c)"
    by (simp add: two_clients_def two_chans_def new_Send_def)
  from broadcast_delivers_or_evicts [OF d o, of "''event''"] d two_clients_broadcast
  show ?thesis
    by (simp add: Run_step_def two_clients_def two_chans_def new_Send_def)
qed

text \<open>
  Every iteration of \<open>Hub.Run\<close> keeps the clients distinct and their channels open and
  never panics, provided a client that registers comes with an open channel.
\<close>

lemma Run_step_invariant:
  assumes "distinct (clients h)" and "\<forall>c \<in> set (clients h). \<not> closed (st c)"
      and "\<forall>c. i = Register c \<longrightarrow> \<not> closed (st c)"
  shows "\<exists>h' st'. Run_step i h st = Inr (h', st')
         \<and> distinct (clients h') \<and> (\<forall>c \<in> set (clients h'). \<not> closed (st' c))"
proof (cases i)
  case (Register c)
  with assms show ?thesis
    by (auto simp add: Run_step_def)
next
  case (Unregister c)
  with assms show ?thesis
    by (auto simp add: Run_step_def distinct_removeAll)
next
  case (Broadcast msg)
  with Run_step_Broadcast [OF assms(1,2), of msg] show ?thesis
    by blast
qed

text \<open>
  A run of broadcasts between which no client drains its buffer: a client whose buffer
  can take them all has them appended in the order the hub received them; a client
  whose buffer cannot is evicted and its channel closed. With capacity C and an empty
  buffer, message C + 1 evicts.
\<close>

lemma Run_broadcasts_in_order:
  assumes "distinct (clients h)" and "\<forall>c \<in> set (clients h). \<not> closed (st c)"
      and "\<forall>c \<in> set (clients h). length (buf (st c)) \<le> cap (st c)"
  shows "\<exists>h' st'. Run (map Broadcast msgs) h st = Inr (h', st')
         \<and> distinct (clients h') \<and> (\<forall>c \<in> set (clients h'). \<not> closed (st' c))
         \<and> set (clients h') \<subseteq> set (clients h)
         \<and> (\<forall>c. c \<notin> set (clients h) \<longrightarrow> st' c = st c)
         \<and> (\<forall>c \<in> set (clients h).
               (length (buf (st c)) + length msgs \<le> cap (st c) \<longrightarrow>
                  c \<in> set (clients h') \<and> st' c = (st c)\<lparr>buf := buf (st c) @ msgs\<rparr>)
             \<and> (cap (st c) < length (buf (st c)) + length msgs \<longrightarrow>
                  c \<notin> set (clients h') \<and> closed (st' c)))"
  using assms
proof (induction msgs arbitrary: h st)
  case Nil
  then show ?case by auto
next
  case (Cons m msgs)
  from Run_step_Broadcast [OF Cons.prems(1,2), of m]
  obtain h1 st1 where step: "Run_step (Broadcast m) h st = Inr (h1, st1)"
    and each: "\<forall>c \<in> set (clients h).
               (length (buf (st c)) < cap (st c) \<longrightarrow>
                  c \<in> set (clients h1) \<and> st1 c = (st c)\<lparr>buf := buf (st c) @ [m]\<rparr>)
             \<and> (\<not> length (buf (st c)) < cap (st c) \<longrightarrow>
                  c \<notin> set (clients h1) \<and> st1 c = (st c)\<lparr>closed := True\<rparr>)"
    and sub: "set (clients h1) \<subseteq> set (clients h)"
    and d1: "distinct (clients h1)"
    and o1: "\<forall>c \<in> set (clients h1). \<not> closed (st1 c)"
    and frame: "\<forall>c. c \<notin> set (clients h) \<longrightarrow> st1 c = st c"
    by blast
  have w1: "\<forall>c \<in> set (clients h1). length (buf (st1 c)) \<le> cap (st1 c)"
  proof
    fix c assume c1: "c \<in> set (clients h1)"
    with sub have c: "c \<in> set (clients h)"
      by auto
    with each c1 show "length (buf (st1 c)) \<le> cap (st1 c)"
      by (cases "length (buf (st c)) < cap (st c)") auto
  qed
  from Cons.IH [OF d1 o1 w1]
  obtain h' st' where run: "Run (map Broadcast msgs) h1 st1 = Inr (h', st')"
    and d': "distinct (clients h')" and o': "\<forall>c \<in> set (clients h'). \<not> closed (st' c)"
    and sub': "set (clients h') \<subseteq> set (clients h1)"
    and frame': "\<forall>c. c \<notin> set (clients h1) \<longrightarrow> st' c = st1 c"
    and each': "\<forall>c \<in> set (clients h1).
               (length (buf (st1 c)) + length msgs \<le> cap (st1 c) \<longrightarrow>
                  c \<in> set (clients h') \<and> st' c = (st1 c)\<lparr>buf := buf (st1 c) @ msgs\<rparr>)
             \<and> (cap (st1 c) < length (buf (st1 c)) + length msgs \<longrightarrow>
                  c \<notin> set (clients h') \<and> closed (st' c))"
    by blast
  have "Run (map Broadcast (m # msgs)) h st = Inr (h', st')"
    using step run by simp
  moreover have "\<forall>c \<in> set (clients h).
               (length (buf (st c)) + length (m # msgs) \<le> cap (st c) \<longrightarrow>
                  c \<in> set (clients h') \<and> st' c = (st c)\<lparr>buf := buf (st c) @ m # msgs\<rparr>)
             \<and> (cap (st c) < length (buf (st c)) + length (m # msgs) \<longrightarrow>
                  c \<notin> set (clients h') \<and> closed (st' c))"
  proof
    fix c assume c: "c \<in> set (clients h)"
    show "(length (buf (st c)) + length (m # msgs) \<le> cap (st c) \<longrightarrow>
                  c \<in> set (clients h') \<and> st' c = (st c)\<lparr>buf := buf (st c) @ m # msgs\<rparr>)
             \<and> (cap (st c) < length (buf (st c)) + length (m # msgs) \<longrightarrow>
                  c \<notin> set (clients h') \<and> closed (st' c))"
    proof (cases "length (buf (st c)) < cap (st c)")
      case True
      with each c have in1: "c \<in> set (clients h1)"
        and s1: "st1 c = (st c)\<lparr>buf := buf (st c) @ [m]\<rparr>"
        by auto
      from each' in1 s1 True show ?thesis
        by auto
    next
      case False
      with each c have out1: "c \<notin> set (clients h1)"
        and s1: "st1 c = (st c)\<lparr>closed := True\<rparr>"
        by auto
      from frame' out1 s1 sub' False show ?thesis
        by auto
    qed
  qed
  ultimately show ?case
    using d' o' sub sub' frame frame' by (intro exI [of _ h'] exI [of _ st']) auto
qed


theorem Run_broadcasts_in_order_witness:
  "(\<exists>h' st'. Run (map Broadcast (replicate 256 ''event'')) lone_client fresh_chans = Inr (h', st')
       \<and> 1 \<in> set (clients h') \<and> buf (st' 1) = replicate 256 ''event'' \<and> \<not> closed (st' 1))
   \<and> (\<exists>h' st'. Run (map Broadcast (replicate 257 ''event'')) lone_client fresh_chans = Inr (h', st')
       \<and> 1 \<notin> set (clients h') \<and> closed (st' 1))"
proof -
  have d: "distinct (clients lone_client)"
    by (simp add: lone_client_def)
  have o: "\<forall>c \<in> set (clients lone_client). \<not> closed (fresh_chans c)"
    by (simp add: fresh_chans_def new_Send_def)
  have w: "\<forall>c \<in> set (clients lone_client). length (buf (fresh_chans c)) \<le> cap (fresh_chans c)"
    by (simp add: fresh_chans_def new_Send_def)
  from Run_broadcasts_in_order [OF d o w, of "replicate 256 ''event''"]
  obtain h1 st1 where a: "Run (map Broadcast (replicate 256 ''event'')) lone_client fresh_chans = Inr (h1, st1)"
    "1 \<in> set (clients h1)" "buf (st1 1) = replicate 256 ''event''" "\<not> closed (st1 1)"
    by (auto simp add: lone_client_def fresh_chans_def new_Send_def)
  from Run_broadcasts_in_order [OF d o w, of "replicate 257 ''event''"]
  obtain h2 st2 where b: "Run (map Broadcast (replicate 257 ''event'')) lone_client fresh_chans = Inr (h2, st2)"
    "1 \<notin> set (clients h2)" "closed (st2 1)"
    by (auto simp add: lone_client_def fresh_chans_def new_Send_def)
  from a b show ?thesis
    by blast
qed

end
